theory Spec2Isabelle
  imports Main "HOL-Library.Word" "HOL-Library.Sublist"
begin

section \<open>The audio streaming session of \<^verbatim>\<open>main.go\<close>\<close>

text \<open>
  The server keeps one \<^verbatim>\<open>Client\<close> per WebSocket connection. The receive loop of
  \<^verbatim>\<open>handleWebSocket\<close> reads control messages one after the other; every accepted
  \<^verbatim>\<open>start\<close> spawns a goroutine \<^verbatim>\<open>streamAudio\<close> that reads the named file in
  chunks and writes them to the connection. The goroutines share the fields of the
  \<^verbatim>\<open>Client\<close>, so the model is a step function on a global state: one step of one
  thread, chosen by a schedule. A step performs at most one access to a shared field,
  a lock operation, or one frame write together with the unlock that follows it.

  Left out: the Prometheus counters, \<^verbatim>\<open>startTime\<close>, \<^verbatim>\<open>totalBytes\<close>,
  \<^verbatim>\<open>clientIP\<close> and \<^verbatim>\<open>audioFile\<close> (they feed metrics and log lines only), the
  error operand of the log lines, and the pacing delay \<^verbatim>\<open>time.Sleep\<close>, which only
  influences the schedule.
\<close>

subsection \<open>Messages and frames\<close>

type_synonym byte = "8 word"

text \<open>\<^verbatim>\<open>type Message struct { Action, Filename string }\<close>\<close>

record Message =
  Action :: string
  Filename :: string

text \<open>\<^verbatim>\<open>type StatusMessage struct { Type string `json:"type"`; Data string `json:"data"` }\<close>\<close>

record StatusMessage =
  Type :: string
  Data :: string

text \<open>
  JSON documents are kept as values; the byte encoding of a value is the work of
  \<^verbatim>\<open>encoding/json\<close>. \<^verbatim>\<open>json.Marshal\<close> of a \<^verbatim>\<open>StatusMessage\<close> gives an object
  with the two tagged fields in declaration order, and cannot fail on a struct of two
  strings, so the error branch of \<^verbatim>\<open>sendStatusMessage\<close> is never taken.
\<close>

datatype json = JString string | JObject "(string \<times> json) list"

definition json_Marshal :: "StatusMessage \<Rightarrow> json" where
  "json_Marshal m = JObject [(''type'', JString (Type m)), (''data'', JString (Data m))]"

datatype message_type = TextMessage | BinaryMessage

datatype frame = TextFrame json | BinaryFrame "byte list"

text \<open>What \<^verbatim>\<open>conn.ReadMessage()\<close> returns: an error, or a message type and a payload.\<close>

datatype inbound = ReadError | Received message_type string

subsection \<open>The connection\<close>

text \<open>
  \<^verbatim>\<open>sent\<close> lists the frames written so far, in order. A write fails once the
  connection is unusable: after \<^verbatim>\<open>conn.Close()\<close> or after a transport failure.
\<close>

record Conn =
  sent :: "frame list"
  usable :: bool

definition WriteMessage :: "Conn \<Rightarrow> frame \<Rightarrow> Conn \<times> bool" where
  \<comment> \<open>the second component is \<^verbatim>\<open>err != nil\<close>\<close>
  "WriteMessage c f = (if usable c then (c\<lparr>sent := sent c @ [f]\<rparr>, False) else (c, True))"

definition Close :: "Conn \<Rightarrow> Conn" where
  "Close c = c\<lparr>usable := False\<rparr>"

subsection \<open>Files\<close>

text \<open>
  A resource is what \<^verbatim>\<open>os.Stat\<close>, \<^verbatim>\<open>os.Open\<close> and \<^verbatim>\<open>file.Read\<close> find at
  \<^verbatim>\<open>filepath.Join("resource", filename)\<close>: whether it can be opened, its bytes, and
  whether reading past the bytes gives an error instead of \<^verbatim>\<open>io.EOF\<close>. A read of a
  regular file fills the buffer unless fewer bytes are left.
\<close>

record resource =
  can_open :: bool
  content :: "byte list"
  read_fails :: bool

datatype read_result = ReadEOF | ReadErr | ReadOK "byte list" "byte list"

definition file_Read :: "nat \<Rightarrow> byte list \<Rightarrow> bool \<Rightarrow> read_result" where
  "file_Read n rest fault =
     (if rest = [] then (if fault then ReadErr else ReadEOF)
      else ReadOK (take n rest) (drop n rest))"

text \<open>\<^verbatim>\<open>buffer := make([]byte, 8192)\<close>\<close>

definition chunk_size :: nat where
  "chunk_size = 8192"

text \<open>
  The environment of a session: the decoder \<^verbatim>\<open>json.Unmarshal(p, &msg)\<close>
  (\<open>None\<close> when it returns an error) and the directory of resources by file name
  (\<open>None\<close> when \<^verbatim>\<open>os.Stat\<close> reports that the file does not exist).
\<close>

record env =
  json_Unmarshal :: "string \<Rightarrow> Message option"
  stat :: "string \<Rightarrow> resource option"

subsection \<open>Threads\<close>

type_synonym chan = nat
type_synonym tid = nat

text \<open>
  Program points of the receive loop of \<^verbatim>\<open>handleWebSocket\<close>. \<open>MSend m\<close> and
  \<open>MSending m\<close> are the two halves of \<^verbatim>\<open>sendStatusMessage(client, m)\<close>: waiting for
  \<^verbatim>\<open>client.mu\<close>, and holding it with the write in flight.
\<close>

datatype mpc =
    MRead
  | MStartCheck string | MStartLock string | MStartClose string | MStartMake string
  | MStartUnlock string | MStartSet string
  | MStopCheck | MStopLock | MStopClose | MStopMake | MStopFlag | MStopUnlock
  | MSend string | MSending string
  | MClosed | MPanic

text \<open>Program points of \<^verbatim>\<open>streamAudio\<close>; \<open>wcont\<close> says where a status send returns to.\<close>

datatype wcont = KOpen | KReset | KExit

datatype wpc =
    WStat
  | WSend string wcont | WSending string wcont
  | WOpen
  | WSelect | WPoll chan
  | WChunkLock "byte list" | WChunkWrite "byte list"
  | WResetFlag
  | WDone

fun resume :: "wcont \<Rightarrow> wpc" where
  "resume KOpen = WOpen"
| "resume KReset = WResetFlag"
| "resume KExit = WDone"

record worker =
  wpc :: wpc
  fname :: string
  unread :: "byte list"
  rd_fault :: bool

definition new_worker :: "string \<Rightarrow> worker" where
  "new_worker f = \<lparr>wpc = WStat, fname = f, unread = [], rd_fault = False\<rparr>"

text \<open>One constructor for each \<^verbatim>\<open>log.Println\<close> / \<^verbatim>\<open>log.Printf\<close> of the two functions.\<close>

datatype log_entry =
    ErrReadingMessage | ErrUnmarshaling | ErrSendingStatus
  | ErrOpeningFile | StreamingFile string nat | StreamingStoppedFor string
  | FinishedStreaming string | ErrReadingFile | ErrWritingWebSocket

subsection \<open>The state\<close>

text \<open>
  \<^verbatim>\<open>type Client struct { conn; mu sync.Mutex; streaming bool; stopCh chan struct{} }\<close>.
  The mutex is its holder, if any; the receive loop is thread 0 and the worker at
  index \<open>i\<close> of \<open>workers\<close> is thread \<open>Suc i\<close>. Channels are numbered in the order
  of their \<^verbatim>\<open>make\<close>.
\<close>

record Client =
  conn :: Conn
  mu :: "tid option"
  streaming :: bool
  stopCh :: chan

record state = Client +
  closed_chans :: "chan set"
  next_chan :: chan
  mpc :: mpc
  inbound :: "inbound list"
  workers :: "worker list"
  logs :: "log_entry list"

definition init_state :: "inbound list \<Rightarrow> state" where
  \<comment> \<open>after \<^verbatim>\<open>client := &Client{conn, streaming: false, stopCh: make(chan struct{})}\<close>\<close>
  "init_state inp =
     \<lparr>conn = \<lparr>sent = [], usable = True\<rparr>, mu = None, streaming = False, stopCh = 0,
      closed_chans = {}, next_chan = 1, mpc = MRead, inbound = inp, workers = [],
      logs = []\<rparr>"

definition status_frame :: "string \<Rightarrow> frame" where
  \<comment> \<open>the frame \<^verbatim>\<open>sendStatusMessage\<close> builds\<close>
  "status_frame status = TextFrame (json_Marshal \<lparr>Type = ''status'', Data = status\<rparr>)"

subsection \<open>The receive loop\<close>

definition dispatch :: "Message \<Rightarrow> mpc" where
  \<comment> \<open>\<^verbatim>\<open>switch msg.Action\<close>, up to the first read of a shared field\<close>
  "dispatch msg =
     (if Action msg = ''start'' then
        (if Filename msg = [] then MSend ''Error: No filename provided''
         else MStartCheck (Filename msg))
      else if Action msg = ''stop'' then MStopCheck
      else MRead)"

definition main_step :: "env \<Rightarrow> state \<Rightarrow> state" where
  "main_step E s =
    (case mpc s of
       MRead \<Rightarrow>
         (case inbound s of
            [] \<Rightarrow> s
          | ReadError # rest \<Rightarrow>
              s\<lparr>conn := Close (conn s), mpc := MClosed, inbound := rest,
                logs := logs s @ [ErrReadingMessage]\<rparr>
          | Received mt p # rest \<Rightarrow>
              (if mt = TextMessage then
                 (case json_Unmarshal E p of
                    None \<Rightarrow> s\<lparr>inbound := rest, logs := logs s @ [ErrUnmarshaling]\<rparr>
                  | Some msg \<Rightarrow> s\<lparr>mpc := dispatch msg, inbound := rest\<rparr>)
               else s\<lparr>inbound := rest\<rparr>))
     | MStartCheck f \<Rightarrow> s\<lparr>mpc := (if streaming s then MStartLock f else MStartSet f)\<rparr>
     | MStartLock f \<Rightarrow> (if mu s = None then s\<lparr>mu := Some 0, mpc := MStartClose f\<rparr> else s)
     | MStartClose f \<Rightarrow>
         (if stopCh s \<in> closed_chans s then s\<lparr>conn := Close (conn s), mpc := MPanic\<rparr>
          else s\<lparr>closed_chans := insert (stopCh s) (closed_chans s), mpc := MStartMake f\<rparr>)
     | MStartMake f \<Rightarrow>
         s\<lparr>stopCh := next_chan s, next_chan := Suc (next_chan s), mpc := MStartUnlock f\<rparr>
     | MStartUnlock f \<Rightarrow> s\<lparr>mu := None, mpc := MStartSet f\<rparr>
     | MStartSet f \<Rightarrow>
         s\<lparr>streaming := True, mpc := MRead, workers := workers s @ [new_worker f]\<rparr>
     | MStopCheck \<Rightarrow> s\<lparr>mpc := (if streaming s then MStopLock else MRead)\<rparr>
     | MStopLock \<Rightarrow> (if mu s = None then s\<lparr>mu := Some 0, mpc := MStopClose\<rparr> else s)
     | MStopClose \<Rightarrow>
         (if stopCh s \<in> closed_chans s then s\<lparr>conn := Close (conn s), mpc := MPanic\<rparr>
          else s\<lparr>closed_chans := insert (stopCh s) (closed_chans s), mpc := MStopMake\<rparr>)
     | MStopMake \<Rightarrow>
         s\<lparr>stopCh := next_chan s, next_chan := Suc (next_chan s), mpc := MStopFlag\<rparr>
     | MStopFlag \<Rightarrow> s\<lparr>streaming := False, mpc := MStopUnlock\<rparr>
     | MStopUnlock \<Rightarrow> s\<lparr>mu := None, mpc := MSend ''Streaming stopped''\<rparr>
     | MSend m \<Rightarrow> (if mu s = None then s\<lparr>mu := Some 0, mpc := MSending m\<rparr> else s)
     | MSending m \<Rightarrow>
         (case WriteMessage (conn s) (status_frame m) of
            (c, err) \<Rightarrow>
              s\<lparr>conn := c, mu := None, mpc := MRead,
                logs := (if err then logs s @ [ErrSendingStatus] else logs s)\<rparr>)
     | MClosed \<Rightarrow> s
     | MPanic \<Rightarrow> s)"

subsection \<open>The transfer worker\<close>

definition set_worker :: "nat \<Rightarrow> worker \<Rightarrow> state \<Rightarrow> state" where
  "set_worker i w s = s\<lparr>workers := (workers s)[i := w]\<rparr>"

definition add_log :: "log_entry \<Rightarrow> state \<Rightarrow> state" where
  "add_log e s = s\<lparr>logs := logs s @ [e]\<rparr>"

definition worker_step :: "env \<Rightarrow> nat \<Rightarrow> state \<Rightarrow> state" where
  "worker_step E i s =
    (if length (workers s) \<le> i then s
     else
      (let w = workers s ! i in
       case wpc w of
         WStat \<Rightarrow>
           (case stat E (fname w) of
              None \<Rightarrow>
                set_worker i (w\<lparr>wpc := WSend (''Error: File '' @ fname w @ '' not found'') KExit\<rparr>) s
            | Some r \<Rightarrow> set_worker i (w\<lparr>wpc := WSend (''Streaming '' @ fname w) KOpen\<rparr>) s)
       | WSend m k \<Rightarrow>
           (if mu s = None then set_worker i (w\<lparr>wpc := WSending m k\<rparr>) (s\<lparr>mu := Some (Suc i)\<rparr>)
            else s)
       | WSending m k \<Rightarrow>
           (case WriteMessage (conn s) (status_frame m) of
              (c, err) \<Rightarrow>
                set_worker i (w\<lparr>wpc := resume k\<rparr>)
                  (s\<lparr>conn := c, mu := None,
                     logs := (if err then logs s @ [ErrSendingStatus] else logs s)\<rparr>))
       | WOpen \<Rightarrow>
           (case stat E (fname w) of
              Some r \<Rightarrow>
                (if can_open r then
                   set_worker i (w\<lparr>wpc := WSelect, unread := content r, rd_fault := read_fails r\<rparr>)
                     (add_log (StreamingFile (fname w) (length (content r))) s)
                 else
                   set_worker i (w\<lparr>wpc := WSend ''Error opening audio file'' KExit\<rparr>)
                     (add_log ErrOpeningFile s))
            | None \<Rightarrow>
                set_worker i (w\<lparr>wpc := WSend ''Error opening audio file'' KExit\<rparr>)
                  (add_log ErrOpeningFile s))
       | WSelect \<Rightarrow> set_worker i (w\<lparr>wpc := WPoll (stopCh s)\<rparr>) s
       | WPoll ch \<Rightarrow>
           (if ch \<in> closed_chans s then
              set_worker i (w\<lparr>wpc := WDone\<rparr>) (add_log (StreamingStoppedFor (fname w)) s)
            else
              (case file_Read chunk_size (unread w) (rd_fault w) of
                 ReadEOF \<Rightarrow>
                   set_worker i (w\<lparr>wpc := WSend ''Streaming finished'' KReset\<rparr>)
                     (add_log (FinishedStreaming (fname w)) s)
               | ReadErr \<Rightarrow>
                   set_worker i (w\<lparr>wpc := WSend ''Error reading audio file'' KReset\<rparr>)
                     (add_log ErrReadingFile s)
               | ReadOK c rest \<Rightarrow> set_worker i (w\<lparr>wpc := WChunkLock c, unread := rest\<rparr>) s))
       | WChunkLock c \<Rightarrow>
           (if mu s = None then set_worker i (w\<lparr>wpc := WChunkWrite c\<rparr>) (s\<lparr>mu := Some (Suc i)\<rparr>)
            else s)
       | WChunkWrite c \<Rightarrow>
           (case WriteMessage (conn s) (BinaryFrame c) of
              (cn, err) \<Rightarrow>
                (if err then
                   set_worker i (w\<lparr>wpc := WResetFlag\<rparr>)
                     (s\<lparr>conn := cn, mu := None, logs := logs s @ [ErrWritingWebSocket]\<rparr>)
                 else set_worker i (w\<lparr>wpc := WSelect\<rparr>) (s\<lparr>conn := cn, mu := None\<rparr>)))
       | WResetFlag \<Rightarrow> set_worker i (w\<lparr>wpc := WDone\<rparr>) (s\<lparr>streaming := False\<rparr>)
       | WDone \<Rightarrow> s))"

subsection \<open>Schedules\<close>

text \<open>
  An action is a step of one thread or a failure of the transport. A thread that is
  blocked (on the mutex, or on \<^verbatim>\<open>ReadMessage\<close> with nothing to read), has returned
  or does not exist leaves the state as it is.
\<close>

datatype action = Run tid | NetFail

fun step :: "env \<Rightarrow> action \<Rightarrow> state \<Rightarrow> state" where
  "step E NetFail s = s\<lparr>conn := Close (conn s)\<rparr>"
| "step E (Run 0) s = main_step E s"
| "step E (Run (Suc i)) s = worker_step E i s"

primrec exec :: "env \<Rightarrow> action list \<Rightarrow> state \<Rightarrow> state" where
  "exec E [] s = s"
| "exec E (a # as) s = exec E as (step E a s)"

text \<open>
  The frames a thread writes along a schedule: what each of its steps appends to
  \<open>sent\<close>.
\<close>

definition new_frames :: "state \<Rightarrow> state \<Rightarrow> frame list" where
  "new_frames s s' = drop (length (sent (conn s))) (sent (conn s'))"

primrec emitted :: "env \<Rightarrow> tid \<Rightarrow> action list \<Rightarrow> state \<Rightarrow> frame list" where
  "emitted E t [] s = []"
| "emitted E t (a # as) s =
     (if a = Run t then new_frames s (step E a s) else []) @ emitted E t as (step E a s)"

subsection \<open>A concrete session\<close>

text \<open>
  An environment for running the model: the decoder on the payloads used below (any
  other payload, such as \<^verbatim>\<open>{oops\<close>, is rejected), and a directory with two
  one-byte files and a file that exists but cannot be opened.
\<close>

definition table_Unmarshal :: "string \<Rightarrow> Message option" where
  \<open>table_Unmarshal p =
     (if p = ''{"action":"stop"}'' then Some \<lparr>Action = ''stop'', Filename = []\<rparr>
      else if p = ''{"action":"start"}'' then Some \<lparr>Action = ''start'', Filename = []\<rparr>
      else if p = ''{"action":"start","filename":"a.mp3"}''
        then Some \<lparr>Action = ''start'', Filename = ''a.mp3''\<rparr>
      else if p = ''{"action":"start","filename":"b.mp3"}''
        then Some \<lparr>Action = ''start'', Filename = ''b.mp3''\<rparr>
      else if p = ''{"action":"start","filename":"locked.mp3"}''
        then Some \<lparr>Action = ''start'', Filename = ''locked.mp3''\<rparr>
      else if p = ''{"action":"start","filename":"missing.mp3"}''
        then Some \<lparr>Action = ''start'', Filename = ''missing.mp3''\<rparr>
      else None)\<close>

definition demo_stat :: "string \<Rightarrow> resource option" where
  "demo_stat f =
     (if f = ''a.mp3'' then Some \<lparr>can_open = True, content = [1], read_fails = False\<rparr>
      else if f = ''b.mp3'' then Some \<lparr>can_open = True, content = [2], read_fails = False\<rparr>
      else if f = ''locked.mp3''
        then Some \<lparr>can_open = False, content = [], read_fails = False\<rparr>
      else None)"

definition demo_env :: env where
  "demo_env = \<lparr>json_Unmarshal = table_Unmarshal, stat = demo_stat\<rparr>"

definition msg_stop :: inbound where
  \<open>msg_stop = Received TextMessage ''{"action":"stop"}''\<close>

definition msg_start_empty :: inbound where
  \<open>msg_start_empty = Received TextMessage ''{"action":"start"}''\<close>

definition msg_start_a :: inbound where
  \<open>msg_start_a = Received TextMessage ''{"action":"start","filename":"a.mp3"}''\<close>

definition msg_start_b :: inbound where
  \<open>msg_start_b = Received TextMessage ''{"action":"start","filename":"b.mp3"}''\<close>

definition msg_start_locked :: inbound where
  \<open>msg_start_locked = Received TextMessage ''{"action":"start","filename":"locked.mp3"}''\<close>

definition msg_start_missing :: inbound where
  \<open>msg_start_missing = Received TextMessage ''{"action":"start","filename":"missing.mp3"}''\<close>

definition msg_garbage :: inbound where
  \<open>msg_garbage = Received TextMessage ''{oops''\<close>

subsection \<open>Predicates used in the proofs\<close>

text \<open>
  While the receive loop handles one message, the other threads run too. The state of
  the handling is followed by a predicate \<open>P s0 s em\<close> on the state \<open>s0\<close> in which
  the handling began, the current state and the frames the receive loop has written
  since. \<open>during P\<close> adds the case that the loop has gone on to a later message.
\<close>

definition during ::
  "(state \<Rightarrow> state \<Rightarrow> frame list \<Rightarrow> bool) \<Rightarrow> state \<Rightarrow> state \<Rightarrow> frame list \<Rightarrow> bool" where
  "during P s0 s em \<longleftrightarrow>
     length (inbound s) < length (inbound s0) \<or> inbound s = inbound s0 \<and> P s0 s em"

definition same_session :: "state \<Rightarrow> state \<Rightarrow> bool" where
  "same_session s0 s \<longleftrightarrow>
     closed_chans s = closed_chans s0 \<and> stopCh s = stopCh s0 \<and> next_chan s = next_chan s0 \<and>
     length (workers s) = length (workers s0) \<and> (streaming s \<longrightarrow> streaming s0)"

definition stopped_session :: "state \<Rightarrow> state \<Rightarrow> bool" where
  "stopped_session s0 s \<longleftrightarrow>
     closed_chans s = insert (stopCh s0) (closed_chans s0) \<and> stopCh s = next_chan s0 \<and>
     next_chan s = Suc (next_chan s0) \<and> length (workers s) = length (workers s0)"

definition one_status :: "string \<Rightarrow> state \<Rightarrow> frame list \<Rightarrow> bool" where
  \<comment> \<open>the status object was written, or the write failed on a dead connection\<close>
  "one_status m s em \<longleftrightarrow>
     em = [TextFrame (JObject [(''type'', JString ''status''), (''data'', JString m)])] \<or>
     em = [] \<and> \<not> usable (conn s)"

definition stop_phase :: "state \<Rightarrow> state \<Rightarrow> frame list \<Rightarrow> bool" where
  "stop_phase s0 s em =
     (length (workers s) = length (workers s0) \<and>
      (case mpc s of
         MStopLock \<Rightarrow> em = [] \<and> closed_chans s = closed_chans s0 \<and> stopCh s = stopCh s0 \<and>
           next_chan s = next_chan s0
       | MStopClose \<Rightarrow> em = [] \<and> closed_chans s = closed_chans s0 \<and> stopCh s = stopCh s0 \<and>
           next_chan s = next_chan s0
       | MStopMake \<Rightarrow> em = [] \<and> closed_chans s = insert (stopCh s0) (closed_chans s0) \<and>
           stopCh s = stopCh s0 \<and> next_chan s = next_chan s0
       | MStopFlag \<Rightarrow> em = [] \<and> stopped_session s0 s
       | MStopUnlock \<Rightarrow> em = [] \<and> stopped_session s0 s \<and> \<not> streaming s
       | MSend m \<Rightarrow> m = ''Streaming stopped'' \<and> em = [] \<and> stopped_session s0 s \<and> \<not> streaming s
       | MSending m \<Rightarrow>
           m = ''Streaming stopped'' \<and> em = [] \<and> stopped_session s0 s \<and> \<not> streaming s
       | MRead \<Rightarrow> one_status ''Streaming stopped'' s em \<and> stopped_session s0 s \<and> \<not> streaming s
       | _ \<Rightarrow> False))"

definition nofile_phase :: "state \<Rightarrow> state \<Rightarrow> frame list \<Rightarrow> bool" where
  "nofile_phase s0 s em =
     (same_session s0 s \<and>
      (case mpc s of
         MSend m \<Rightarrow> m = ''Error: No filename provided'' \<and> em = []
       | MSending m \<Rightarrow> m = ''Error: No filename provided'' \<and> em = []
       | MRead \<Rightarrow> one_status ''Error: No filename provided'' s em
       | _ \<Rightarrow> False))"

definition idle_stop_phase :: "state \<Rightarrow> state \<Rightarrow> frame list \<Rightarrow> bool" where
  "idle_stop_phase s0 s em =
     (same_session s0 s \<and> em = [] \<and> \<not> streaming s \<and>
      (case mpc s of MStopCheck \<Rightarrow> True | MRead \<Rightarrow> True | _ \<Rightarrow> False))"

text \<open>The program points a worker passes after a chunk write has failed.\<close>

definition after_failed_write :: "byte list \<Rightarrow> nat \<Rightarrow> state \<Rightarrow> bool" where
  "after_failed_write c i s \<longleftrightarrow>
     i < length (workers s) \<and> \<not> usable (conn s) \<and>
     (case wpc (workers s ! i) of
        WChunkWrite d \<Rightarrow> d = c | WResetFlag \<Rightarrow> True | WDone \<Rightarrow> True | _ \<Rightarrow> False)"

text \<open>
  Channels: \<^verbatim>\<open>client.stopCh\<close> is an open channel except between a
  \<^verbatim>\<open>close(client.stopCh)\<close> and the \<^verbatim>\<open>make\<close> that follows it, and \<^verbatim>\<open>close\<close>
  never hits a closed channel.
\<close>

definition chan_inv :: "state \<Rightarrow> bool" where
  "chan_inv s \<longleftrightarrow>
     stopCh s < next_chan s \<and> (\<forall>c \<in> closed_chans s. c < next_chan s) \<and>
     (case mpc s of
        MStartMake f \<Rightarrow> True | MStopMake \<Rightarrow> True | MPanic \<Rightarrow> False
      | _ \<Rightarrow> stopCh s \<notin> closed_chans s)"

subsection \<open>Runs of the concrete session\<close>

text \<open>
  States and schedules of the concrete session. In \<open>stop_demo\<close> and \<open>nofile_demo\<close> the
  worker for \<^verbatim>\<open>a.mp3\<close> holds the mutex with its first status write in flight while
  the next control message waits to be read.
\<close>

definition stop_demo :: state where
  "stop_demo =
     exec demo_env [Run 0, Run 0, Run 0, Run 1, Run 1] (init_state [msg_start_a, msg_stop])"

definition stop_demo_schedule :: "action list" where
  "stop_demo_schedule =
     [Run 0, Run 1, Run 0, Run 0, Run 1, Run 0, Run 0, Run 0, Run 1, Run 0, Run 0]"

definition idle_demo :: state where
  "idle_demo = init_state [msg_stop, msg_start_a]"

definition nofile_demo :: state where
  "nofile_demo =
     exec demo_env [Run 0, Run 0, Run 0, Run 1, Run 1]
       (init_state [msg_start_a, msg_start_empty])"

definition nofile_demo_schedule :: "action list" where
  "nofile_demo_schedule = [Run 0, Run 1, Run 1, Run 0, Run 1, Run 0]"

definition garbage_demo :: state where
  "garbage_demo = init_state [msg_garbage, msg_start_a]"

definition failed_write_demo :: state where
  "failed_write_demo =
     exec demo_env
       [Run 0, Run 0, Run 0, Run 1, Run 1, Run 1, Run 1, Run 1, Run 1, Run 1, NetFail]
       (init_state [msg_start_a])"

text \<open>
  \<^verbatim>\<open>start a.mp3\<close>, then \<^verbatim>\<open>start b.mp3\<close> while the first transfer is in flight:
  the first worker has sent its status and opened the file when the second start is
  handled; afterwards both workers run.
\<close>

definition supersede_schedule :: "action list" where
  "supersede_schedule =
     [Run 0, Run 0, Run 0,
      Run 1, Run 1, Run 1, Run 1,
      Run 0, Run 0, Run 0, Run 0, Run 0, Run 0, Run 0,
      Run 2, Run 2, Run 2,
      Run 1, Run 1, Run 1, Run 1,
      Run 2, Run 2, Run 2, Run 2, Run 2,
      Run 1, Run 1, Run 1, Run 1, Run 1]"

subsection \<open>The mutex\<close>

text \<open>
  The program points at which a thread holds \<^verbatim>\<open>client.mu\<close>, and those at which it has
  a frame write in flight (\<^verbatim>\<open>conn.WriteMessage\<close> called, not yet returned). A panic
  of the receive loop happens inside its critical section and leaves the mutex locked.
\<close>

fun main_holds :: "mpc \<Rightarrow> bool" where
  "main_holds (MStartClose f) = True"
| "main_holds (MStartMake f) = True"
| "main_holds (MStartUnlock f) = True"
| "main_holds MStopClose = True"
| "main_holds MStopMake = True"
| "main_holds MStopFlag = True"
| "main_holds MStopUnlock = True"
| "main_holds (MSending m) = True"
| "main_holds MPanic = True"
| "main_holds _ = False"

fun main_writing :: "mpc \<Rightarrow> bool" where
  "main_writing (MSending m) = True"
| "main_writing _ = False"

fun worker_writing :: "wpc \<Rightarrow> bool" where
  "worker_writing (WSending m k) = True"
| "worker_writing (WChunkWrite c) = True"
| "worker_writing _ = False"

definition holds_lock :: "state \<Rightarrow> tid \<Rightarrow> bool" where
  "holds_lock s t =
     (case t of
        0 \<Rightarrow> main_holds (mpc s)
      | Suc i \<Rightarrow> i < length (workers s) \<and> worker_writing (wpc (workers s ! i)))"

definition writing :: "state \<Rightarrow> tid \<Rightarrow> bool" where
  "writing s t =
     (case t of
        0 \<Rightarrow> main_writing (mpc s)
      | Suc i \<Rightarrow> i < length (workers s) \<and> worker_writing (wpc (workers s ! i)))"

definition lock_inv :: "state \<Rightarrow> bool" where
  "lock_inv s \<longleftrightarrow> (\<forall>t. holds_lock s t \<longleftrightarrow> mu s = Some t)"

subsection \<open>Status messages\<close>

text \<open>
  The kinds of status message the interface description enumerates, and the texts it
  gives for them: \<^verbatim>\<open>Error: File <name> not found\<close>, \<^verbatim>\<open>Streaming <name>\<close>,
  \<^verbatim>\<open>Streaming finished\<close>, \<^verbatim>\<open>Streaming stopped\<close>, \<^verbatim>\<open>Error reading audio file\<close>,
  \<^verbatim>\<open>Error: No filename provided\<close>. It gives no text for a write error; any text
  that begins with \<^verbatim>\<open>Error writing\<close> is taken for one.
\<close>

datatype status_kind =
    FileNotFound | StreamStarted | StreamFinished | StreamStopped
  | ReadFailed | WriteFailed | NoFilenameProvided

definition spec_status_kind :: "string \<Rightarrow> status_kind option" where
  "spec_status_kind m =
     (if m = ''Error: No filename provided'' then Some NoFilenameProvided
      else if m = ''Streaming finished'' then Some StreamFinished
      else if m = ''Streaming stopped'' then Some StreamStopped
      else if m = ''Error reading audio file'' then Some ReadFailed
      else if prefix ''Error: File '' m \<and> suffix '' not found'' m then Some FileNotFound
      else if prefix ''Streaming '' m then Some StreamStarted
      else if prefix ''Error writing'' m then Some WriteFailed
      else None)"

text \<open>The statuses of the code: those of an enumerated kind, and the failure of \<^verbatim>\<open>os.Open\<close>.\<close>

definition code_status :: "string \<Rightarrow> bool" where
  "code_status m \<longleftrightarrow> spec_status_kind m \<noteq> None \<or> m = ''Error opening audio file''"

definition status_object :: "string \<Rightarrow> json" where
  "status_object m = JObject [(''type'', JString ''status''), (''data'', JString m)]"

fun frame_ok :: "(string \<Rightarrow> bool) \<Rightarrow> frame \<Rightarrow> bool" where
  "frame_ok P (BinaryFrame c) = True"
| "frame_ok P (TextFrame j) = (\<exists>m. j = status_object m \<and> P m)"

fun main_pending :: "mpc \<Rightarrow> bool" where
  "main_pending (MSend m) = code_status m"
| "main_pending (MSending m) = code_status m"
| "main_pending _ = True"

fun worker_pending :: "wpc \<Rightarrow> bool" where
  "worker_pending (WSend m k) = code_status m"
| "worker_pending (WSending m k) = code_status m"
| "worker_pending _ = True"

definition status_inv :: "state \<Rightarrow> bool" where
  "status_inv s \<longleftrightarrow>
     (\<forall>fr \<in> set (sent (conn s)). frame_ok code_status fr) \<and> main_pending (mpc s) \<and>
     (\<forall>i < length (workers s). worker_pending (wpc (workers s ! i)))"

definition locked_schedule :: "action list" where
  "locked_schedule = [Run 0, Run 0, Run 0, Run 1, Run 1, Run 1, Run 1, Run 1, Run 1]"

subsection \<open>A complete transfer\<close>

text \<open>
  The chunks of a file: consecutive slices of \<open>n\<close> bytes, the last one shorter when
  the length is not a multiple of \<open>n\<close>.
\<close>

function chunks :: "nat \<Rightarrow> 'a list \<Rightarrow> 'a list list" where
  "chunks n xs = (if n = 0 \<or> xs = [] then [] else take n xs # chunks n (drop n xs))"
  by pat_completeness auto
termination
  by (relation "measure (\<lambda>(n, xs). length xs)") auto

definition transfer_frames :: "string \<Rightarrow> byte list \<Rightarrow> frame list" where
  "transfer_frames f bs =
     status_frame (''Streaming '' @ f) # map BinaryFrame (chunks chunk_size bs) @
     [status_frame ''Streaming finished'']"

text \<open>
  The invariant of an undisturbed transfer of the file \<open>f\<close> with bytes \<open>bs\<close>, begun in
  state \<open>s0\<close>: what the worker still has to send (\<open>todo\<close>), appended to what has been
  sent, is the whole transfer; \<open>steps_left\<close> counts the steps the worker still takes.
\<close>

definition todo :: "string \<Rightarrow> byte list \<Rightarrow> worker \<Rightarrow> frame list" where
  "todo f bs w =
     (case wpc w of
        WStat \<Rightarrow> transfer_frames f bs
      | WSend m k \<Rightarrow>
          (case k of KOpen \<Rightarrow> transfer_frames f bs
           | KReset \<Rightarrow> [status_frame ''Streaming finished''] | KExit \<Rightarrow> [])
      | WSending m k \<Rightarrow>
          (case k of KOpen \<Rightarrow> transfer_frames f bs
           | KReset \<Rightarrow> [status_frame ''Streaming finished''] | KExit \<Rightarrow> [])
      | WOpen \<Rightarrow> map BinaryFrame (chunks chunk_size bs) @ [status_frame ''Streaming finished'']
      | WSelect \<Rightarrow>
          map BinaryFrame (chunks chunk_size (unread w)) @ [status_frame ''Streaming finished'']
      | WPoll ch \<Rightarrow>
          map BinaryFrame (chunks chunk_size (unread w)) @ [status_frame ''Streaming finished'']
      | WChunkLock c \<Rightarrow>
          BinaryFrame c # map BinaryFrame (chunks chunk_size (unread w)) @
          [status_frame ''Streaming finished'']
      | WChunkWrite c \<Rightarrow>
          BinaryFrame c # map BinaryFrame (chunks chunk_size (unread w)) @
          [status_frame ''Streaming finished'']
      | WResetFlag \<Rightarrow> []
      | WDone \<Rightarrow> [])"

definition steps_left :: "byte list \<Rightarrow> worker \<Rightarrow> nat" where
  "steps_left bs w =
     (case wpc w of
        WStat \<Rightarrow> 9 + 4 * length (chunks chunk_size bs)
      | WSend m k \<Rightarrow>
          (case k of KOpen \<Rightarrow> 8 + 4 * length (chunks chunk_size bs) | KReset \<Rightarrow> 3 | KExit \<Rightarrow> 2)
      | WSending m k \<Rightarrow>
          (case k of KOpen \<Rightarrow> 7 + 4 * length (chunks chunk_size bs) | KReset \<Rightarrow> 2 | KExit \<Rightarrow> 1)
      | WOpen \<Rightarrow> 6 + 4 * length (chunks chunk_size bs)
      | WSelect \<Rightarrow> 5 + 4 * length (chunks chunk_size (unread w))
      | WPoll ch \<Rightarrow> 4 + 4 * length (chunks chunk_size (unread w))
      | WChunkLock c \<Rightarrow> 7 + 4 * length (chunks chunk_size (unread w))
      | WChunkWrite c \<Rightarrow> 6 + 4 * length (chunks chunk_size (unread w))
      | WResetFlag \<Rightarrow> 1
      | WDone \<Rightarrow> 0)"

definition pc_ok :: "string \<Rightarrow> state \<Rightarrow> worker \<Rightarrow> bool" where
  "pc_ok f s w =
     (case wpc w of
        WSend m k \<Rightarrow>
          k = KOpen \<and> m = ''Streaming '' @ f \<or> k = KReset \<and> m = ''Streaming finished''
      | WSending m k \<Rightarrow>
          k = KOpen \<and> m = ''Streaming '' @ f \<or> k = KReset \<and> m = ''Streaming finished''
      | WPoll ch \<Rightarrow> ch \<notin> closed_chans s
      | _ \<Rightarrow> True)"

definition worker_ok :: "string \<Rightarrow> byte list \<Rightarrow> state \<Rightarrow> state \<Rightarrow> worker \<Rightarrow> bool" where
  "worker_ok f bs s0 s w \<longleftrightarrow>
     fname w = f \<and> \<not> rd_fault w \<and> pc_ok f s w \<and>
     sent (conn s) @ todo f bs w = sent (conn s0) @ transfer_frames f bs \<and>
     mu s = (if worker_writing (wpc w) then Some (Suc (length (workers s0))) else None) \<and>
     (streaming s \<longleftrightarrow> wpc w \<noteq> WDone)"

definition pre_spawn :: "state \<Rightarrow> state \<Rightarrow> bool" where
  "pre_spawn s0 s \<longleftrightarrow> workers s = workers s0 \<and> sent (conn s) = sent (conn s0)"

definition transfer_inv :: "string \<Rightarrow> byte list \<Rightarrow> state \<Rightarrow> state \<Rightarrow> bool" where
  "transfer_inv f bs s0 s \<longleftrightarrow>
     inbound s = [] \<and> usable (conn s) \<and> chan_inv s \<and>
     (\<forall>j < length (workers s0). j < length (workers s) \<and> wpc (workers s ! j) = WDone) \<and>
     (case mpc s of
        MStartCheck g \<Rightarrow> g = f \<and> pre_spawn s0 s \<and> mu s = None
      | MStartLock g \<Rightarrow> g = f \<and> pre_spawn s0 s \<and> mu s = None
      | MStartClose g \<Rightarrow> g = f \<and> pre_spawn s0 s \<and> mu s = Some 0
      | MStartMake g \<Rightarrow> g = f \<and> pre_spawn s0 s \<and> mu s = Some 0
      | MStartUnlock g \<Rightarrow> g = f \<and> pre_spawn s0 s \<and> mu s = Some 0
      | MStartSet g \<Rightarrow> g = f \<and> pre_spawn s0 s \<and> mu s = None
      | MRead \<Rightarrow>
          length (workers s) = Suc (length (workers s0)) \<and>
          worker_ok f bs s0 s (workers s ! length (workers s0))
      | _ \<Rightarrow> False)"




section \<open>Properties\<close>

subsection \<open>Schedules\<close>

lemma exec_append: "exec E (xs @ ys) s = exec E ys (exec E xs s)"
  by (induction xs arbitrary: s) simp_all

lemma emitted_append:
  "emitted E t (xs @ ys) s = emitted E t xs s @ emitted E t ys (exec E xs s)"
  by (induction xs arbitrary: s) simp_all

lemma step_Run_numeral: "step E (Run (numeral k)) s = worker_step E (pred_numeral k) s"
  by (simp add: numeral_eq_Suc)

text \<open>The equations that run the model on a concrete state.\<close>

lemmas step_defs = main_step_def worker_step_def dispatch_def WriteMessage_def Close_def
  set_worker_def add_log_def status_frame_def json_Marshal_def new_worker_def file_Read_def
  new_frames_def

lemmas demo_defs = demo_env_def table_Unmarshal_def demo_stat_def init_state_def
  msg_stop_def msg_start_a_def msg_start_b_def msg_start_empty_def msg_start_locked_def
  msg_start_missing_def msg_garbage_def

lemmas run_defs = step_defs demo_defs chunk_size_def step_Run_numeral

subsection \<open>What a step leaves alone\<close>

lemma worker_step_keeps:
  "mpc (worker_step E i s) = mpc s \<and> inbound (worker_step E i s) = inbound s \<and>
   stopCh (worker_step E i s) = stopCh s \<and> closed_chans (worker_step E i s) = closed_chans s \<and>
   next_chan (worker_step E i s) = next_chan s \<and>
   length (workers (worker_step E i s)) = length (workers s) \<and>
   (streaming (worker_step E i s) \<longrightarrow> streaming s) \<and>
   usable (conn (worker_step E i s)) = usable (conn s)"
  by (simp add: worker_step_def Let_def set_worker_def add_log_def WriteMessage_def
      split: wpc.split option.split read_result.split)

lemma main_step_inbound_le: "length (inbound (main_step E s)) \<le> length (inbound s)"
  by (cases "mpc s")
    (simp_all add: main_step_def WriteMessage_def split: list.split inbound.split option.split)

lemma main_step_busy: "mpc s \<noteq> MRead \<Longrightarrow> inbound (main_step E s) = inbound s"
  by (cases "mpc s") (simp_all add: main_step_def WriteMessage_def)

lemma main_step_waiting: "mpc s = MRead \<Longrightarrow> inbound s = [] \<Longrightarrow> main_step E s = s"
  by (simp add: main_step_def)

lemma main_step_consumes:
  "mpc s = MRead \<Longrightarrow> inbound s \<noteq> [] \<Longrightarrow>
   length (inbound (main_step E s)) < length (inbound s)"
  by (simp add: main_step_def split: list.split inbound.split option.split)

subsection \<open>Following the handling of one message\<close>

lemma during_step:
  assumes inv: "during P s0 s em"
    and worker: "\<And>s em i. P s0 s em \<Longrightarrow> P s0 (worker_step E i s) em"
    and net: "\<And>s em. P s0 s em \<Longrightarrow> P s0 (step E NetFail s) em"
    and main: "\<And>s em. P s0 s em \<Longrightarrow> mpc s \<noteq> MRead \<Longrightarrow>
                 P s0 (main_step E s) (em @ new_frames s (main_step E s))"
  shows "during P s0 (step E a s) (em @ (if a = Run 0 then new_frames s (step E a s) else []))"
proof (cases "length (inbound s) < length (inbound s0)")
  case True
  have "length (inbound (step E a s)) \<le> length (inbound s)"
  proof (cases a)
    case NetFail
    then show ?thesis by simp
  next
    case (Run t)
    then show ?thesis
      using main_step_inbound_le [of E s] worker_step_keeps [of E _ s] by (cases t) simp_all
  qed
  with True show ?thesis by (simp add: during_def)
next
  case False
  with inv have same: "inbound s = inbound s0" and ph: "P s0 s em"
    by (simp_all add: during_def)
  show ?thesis
  proof (cases a)
    case NetFail
    with net [OF ph] same show ?thesis by (simp add: during_def)
  next
    case (Run t)
    show ?thesis
    proof (cases t)
      case (Suc i)
      with Run worker [OF ph, of i] same worker_step_keeps [of E i s] show ?thesis
        by (simp add: during_def)
    next
      case 0
      show ?thesis
      proof (cases "mpc s = MRead")
        case busy: False
        with Run 0 same main [OF ph] show ?thesis
          by (simp add: during_def main_step_busy)
      next
        case waiting: True
        show ?thesis
        proof (cases "inbound s = []")
          case True
          with waiting inv Run 0 show ?thesis
            by (simp add: main_step_waiting new_frames_def)
        next
          case False
          with waiting same Run 0 main_step_consumes [of s E] show ?thesis
            by (simp add: during_def)
        qed
      qed
    qed
  qed
qed

lemma during_exec:
  assumes init: "P s0 s0 []"
    and worker: "\<And>s em i. P s0 s em \<Longrightarrow> P s0 (worker_step E i s) em"
    and net: "\<And>s em. P s0 s em \<Longrightarrow> P s0 (step E NetFail s) em"
    and main: "\<And>s em. P s0 s em \<Longrightarrow> mpc s \<noteq> MRead \<Longrightarrow>
                 P s0 (main_step E s) (em @ new_frames s (main_step E s))"
  shows "during P s0 (exec E as s0) (emitted E 0 as s0)"
proof (induction as rule: rev_induct)
  case Nil
  from init show ?case by (simp add: during_def)
next
  case (snoc a as)
  from during_step [of P s0 _ _ E a, OF snoc worker net main] show ?case
    by (simp add: exec_append emitted_append)
qed

lemma during_done:
  assumes "during P s0 s em" and "inbound s = inbound s0"
  shows "P s0 s em"
  using assms by (simp add: during_def)

subsection \<open>Channels\<close>

lemma chan_inv_step: "chan_inv s \<Longrightarrow> chan_inv (step E a s)"
proof (cases a)
  case NetFail
  then show "chan_inv s \<Longrightarrow> chan_inv (step E a s)"
    by (cases "mpc s") (auto simp: chan_inv_def)
next
  case (Run t)
  show "chan_inv s \<Longrightarrow> chan_inv (step E a s)"
  proof (cases t)
    case 0
    with Run show "chan_inv s \<Longrightarrow> chan_inv (step E a s)"
      by (cases "mpc s")
        (auto simp: chan_inv_def main_step_def dispatch_def WriteMessage_def
          split: list.split inbound.split option.split)
  next
    case (Suc i)
    with Run worker_step_keeps [of E i s] show "chan_inv s \<Longrightarrow> chan_inv (step E a s)"
      by (cases "mpc s") (auto simp: chan_inv_def)
  qed
qed

lemma chan_inv_exec: "chan_inv s \<Longrightarrow> chan_inv (exec E as s)"
  by (induction as arbitrary: s) (simp_all add: chan_inv_step)

lemma chan_inv_init: "chan_inv (init_state inp)"
  by (simp add: chan_inv_def init_state_def)

lemma chan_inv_reachable: "chan_inv (exec E as (init_state inp))"
  by (simp add: chan_inv_exec chan_inv_init)

lemma open_at_read:
  assumes "chan_inv s" and "mpc s = MRead"
  shows "stopCh s \<notin> closed_chans s" and "next_chan s \<notin> closed_chans s"
    and "stopCh s \<noteq> next_chan s"
  using assms by (auto simp: chan_inv_def)

subsection \<open>Stop on a streaming session\<close>

lemma stop_phase_worker: "stop_phase s0 s em \<Longrightarrow> stop_phase s0 (worker_step E i s) em"
  using worker_step_keeps [of E i s]
  by (cases "mpc s") (auto simp: stop_phase_def stopped_session_def one_status_def)

lemma stop_phase_net: "stop_phase s0 s em \<Longrightarrow> stop_phase s0 (step E NetFail s) em"
  by (cases "mpc s") (auto simp: stop_phase_def stopped_session_def one_status_def Close_def)

lemma stop_phase_main:
  assumes "stop_phase s0 s em" and "stopCh s0 \<notin> closed_chans s0" and "mpc s \<noteq> MRead"
  shows "stop_phase s0 (main_step E s) (em @ new_frames s (main_step E s))"
  using assms
  by (cases "mpc s")
    (auto simp: stop_phase_def stopped_session_def one_status_def main_step_def new_frames_def
      WriteMessage_def status_frame_def json_Marshal_def)


text \<open>
  C5. A \<^verbatim>\<open>stop\<close> message is read in a reachable state and \<^verbatim>\<open>client.streaming\<close>
  is found set. Run without interference on a free mutex, the receive loop closes the
  current \<^verbatim>\<open>stopCh\<close>, installs a fresh one, clears the flag and writes the one text
  frame \<^verbatim>\<open>{"type":"status","data":"Streaming stopped"}\<close>, changing nothing else.
  Under any schedule of the other threads and of transport failures, once the loop is
  back at its read the same holds of the channels and the flag, the new channel is open,
  and the frames the loop has written are exactly that one frame (or none, the
  connection being dead).
\<close>

theorem stop_when_streaming:
  assumes "s = exec E as0 (init_state inp)"
    and "mpc s = MRead" and "inbound s = Received TextMessage p # rest"
    and "json_Unmarshal E p = Some msg" and "Action msg = ''stop''" and "streaming s"
  shows "(mu s = None \<longrightarrow>
      exec E [Run 0, Run 0, Run 0, Run 0, Run 0, Run 0, Run 0, Run 0, Run 0] s =
        s\<lparr>conn :=
            (if usable (conn s) then
               (conn s)\<lparr>sent := sent (conn s) @
                 [TextFrame (JObject [(''type'', JString ''status''),
                    (''data'', JString ''Streaming stopped'')])]\<rparr>
             else conn s),
          streaming := False, stopCh := next_chan s,
          closed_chans := insert (stopCh s) (closed_chans s), next_chan := Suc (next_chan s),
          inbound := rest,
          logs := (if usable (conn s) then logs s else logs s @ [ErrSendingStatus])\<rparr>) \<and>
    (\<forall>as s'. s' = exec E (Run 0 # Run 0 # as) s \<and> mpc s' = MRead \<and> inbound s' = rest \<longrightarrow>
        closed_chans s' = insert (stopCh s) (closed_chans s) \<and>
        stopCh s' = next_chan s \<and> stopCh s' \<notin> closed_chans s' \<and> \<not> streaming s' \<and>
        (emitted E 0 (Run 0 # Run 0 # as) s =
           [TextFrame (JObject [(''type'', JString ''status''),
              (''data'', JString ''Streaming stopped'')])] \<or>
         emitted E 0 (Run 0 # Run 0 # as) s = [] \<and> \<not> usable (conn s')))"
proof -
  from assms(1) have ci: "chan_inv s" by (simp add: chan_inv_reachable)
  note op = open_at_read [OF ci assms(2)]
  define s0 where "s0 = exec E [Run 0, Run 0] s"
  have s0: "mpc s0 = MStopLock" "inbound s0 = rest" "closed_chans s0 = closed_chans s"
    "stopCh s0 = stopCh s" "next_chan s0 = next_chan s"
    using assms(2-) by (simp_all add: main_step_def dispatch_def s0_def)
  have two: "exec E (Run 0 # Run 0 # as) s = exec E as s0" for as
    by (simp add: s0_def)
  have em2: "emitted E 0 (Run 0 # Run 0 # as) s = emitted E 0 as s0" for as
    using assms(2-) by (simp add: main_step_def dispatch_def s0_def new_frames_def)
  have init: "stop_phase s0 s0 []"
    by (simp add: stop_phase_def s0)
  have open0: "stopCh s0 \<notin> closed_chans s0"
    using op by (simp add: s0)
  have solo: "mu s = None \<longrightarrow>
      exec E [Run 0, Run 0, Run 0, Run 0, Run 0, Run 0, Run 0, Run 0, Run 0] s =
        s\<lparr>conn :=
            (if usable (conn s) then
               (conn s)\<lparr>sent := sent (conn s) @
                 [TextFrame (JObject [(''type'', JString ''status''),
                    (''data'', JString ''Streaming stopped'')])]\<rparr>
             else conn s),
          streaming := False, stopCh := next_chan s,
          closed_chans := insert (stopCh s) (closed_chans s), next_chan := Suc (next_chan s),
          inbound := rest,
          logs := (if usable (conn s) then logs s else logs s @ [ErrSendingStatus])\<rparr>"
    using assms(2-) op
    by (simp add: main_step_def dispatch_def WriteMessage_def status_frame_def json_Marshal_def)
  have general: "closed_chans s' = insert (stopCh s) (closed_chans s) \<and>
        stopCh s' = next_chan s \<and> stopCh s' \<notin> closed_chans s' \<and> \<not> streaming s' \<and>
        (emitted E 0 (Run 0 # Run 0 # as) s =
           [TextFrame (JObject [(''type'', JString ''status''),
              (''data'', JString ''Streaming stopped'')])] \<or>
         emitted E 0 (Run 0 # Run 0 # as) s = [] \<and> \<not> usable (conn s'))"
    if run: "s' = exec E (Run 0 # Run 0 # as) s" and rd: "mpc s' = MRead"
      and inb: "inbound s' = rest" for as s'
  proof -
    from run two have s': "s' = exec E as s0" by simp
    have "during stop_phase s0 (exec E as s0) (emitted E 0 as s0)"
      using init open0
      by (intro during_exec [of stop_phase s0 E as] stop_phase_worker stop_phase_net
          stop_phase_main)
    with s' inb have "stop_phase s0 s' (emitted E 0 as s0)"
      by (simp add: during_def s0)
    with rd op show ?thesis
      unfolding em2 by (simp add: stop_phase_def stopped_session_def one_status_def s0)
  qed
  from solo general show ?thesis by blast
qed

theorem stop_when_streaming_witness:
  "mpc stop_demo = MRead \<and> inbound stop_demo = [msg_stop] \<and> streaming stop_demo \<and>
   mu stop_demo = Some 1 \<and>
   mpc (exec demo_env (Run 0 # Run 0 # stop_demo_schedule) stop_demo) = MRead \<and>
   inbound (exec demo_env (Run 0 # Run 0 # stop_demo_schedule) stop_demo) = [] \<and>
   closed_chans (exec demo_env (Run 0 # Run 0 # stop_demo_schedule) stop_demo) = {0} \<and>
   stopCh (exec demo_env (Run 0 # Run 0 # stop_demo_schedule) stop_demo) = 1 \<and>
   \<not> streaming (exec demo_env (Run 0 # Run 0 # stop_demo_schedule) stop_demo) \<and>
   usable (conn (exec demo_env (Run 0 # Run 0 # stop_demo_schedule) stop_demo)) \<and>
   emitted demo_env 0 (Run 0 # Run 0 # stop_demo_schedule) stop_demo =
     [TextFrame (JObject [(''type'', JString ''status''),
        (''data'', JString ''Streaming stopped'')])]"
proof -
  have s: "stop_demo =
      \<lparr>conn = \<lparr>sent = [], usable = True\<rparr>, mu = Some 1, streaming = True, stopCh = 0,
       closed_chans = {}, next_chan = 1, mpc = MRead, inbound = [msg_stop],
       workers = [\<lparr>wpc = WSending ''Streaming a.mp3'' KOpen, fname = ''a.mp3'', unread = [],
          rd_fault = False\<rparr>],
       logs = []\<rparr>"
    by (simp add: stop_demo_def run_defs)
  have e: "mpc (exec demo_env (Run 0 # Run 0 # stop_demo_schedule) stop_demo) = MRead \<and>
      inbound (exec demo_env (Run 0 # Run 0 # stop_demo_schedule) stop_demo) = []"
    unfolding s by (simp add: stop_demo_schedule_def run_defs)
  have u: "usable (conn (exec demo_env (Run 0 # Run 0 # stop_demo_schedule) stop_demo))"
    unfolding s by (simp add: stop_demo_schedule_def run_defs)
  have h: "mpc stop_demo = MRead"
    "inbound stop_demo = Received TextMessage ''{\"action\":\"stop\"}'' # []"
    "json_Unmarshal demo_env ''{\"action\":\"stop\"}'' = Some \<lparr>Action = ''stop'', Filename = []\<rparr>"
    "Action \<lparr>Action = ''stop'', Filename = []\<rparr> = ''stop''" "streaming stop_demo"
    unfolding s by (simp_all add: run_defs)
  from stop_when_streaming [OF stop_demo_def h] e
  have "closed_chans (exec demo_env (Run 0 # Run 0 # stop_demo_schedule) stop_demo) =
        insert (stopCh stop_demo) (closed_chans stop_demo) \<and>
      stopCh (exec demo_env (Run 0 # Run 0 # stop_demo_schedule) stop_demo) = next_chan stop_demo \<and>
      \<not> streaming (exec demo_env (Run 0 # Run 0 # stop_demo_schedule) stop_demo) \<and>
      (emitted demo_env 0 (Run 0 # Run 0 # stop_demo_schedule) stop_demo =
         [TextFrame (JObject [(''type'', JString ''status''),
            (''data'', JString ''Streaming stopped'')])] \<or>
       emitted demo_env 0 (Run 0 # Run 0 # stop_demo_schedule) stop_demo = [] \<and>
       \<not> usable (conn (exec demo_env (Run 0 # Run 0 # stop_demo_schedule) stop_demo)))"
    by blast
  moreover have "stopCh stop_demo = 0" "closed_chans stop_demo = {}" "next_chan stop_demo = 1"
    "mu stop_demo = Some 1" "inbound stop_demo = [msg_stop]"
    unfolding s by simp_all
  ultimately show ?thesis using h e u by simp
qed

subsection \<open>Stop on an idle session, start without a file name\<close>

lemma idle_stop_phase_worker:
  "idle_stop_phase s0 s em \<Longrightarrow> idle_stop_phase s0 (worker_step E i s) em"
  using worker_step_keeps [of E i s]
  by (cases "mpc s") (auto simp: idle_stop_phase_def same_session_def)

lemma idle_stop_phase_net:
  "idle_stop_phase s0 s em \<Longrightarrow> idle_stop_phase s0 (step E NetFail s) em"
  by (cases "mpc s") (auto simp: idle_stop_phase_def same_session_def)

lemma idle_stop_phase_main:
  assumes "idle_stop_phase s0 s em" and "mpc s \<noteq> MRead"
  shows "idle_stop_phase s0 (main_step E s) (em @ new_frames s (main_step E s))"
  using assms
  by (cases "mpc s")
    (auto simp: idle_stop_phase_def same_session_def main_step_def new_frames_def)

lemma nofile_phase_worker: "nofile_phase s0 s em \<Longrightarrow> nofile_phase s0 (worker_step E i s) em"
  using worker_step_keeps [of E i s]
  by (cases "mpc s") (auto simp: nofile_phase_def same_session_def one_status_def)

lemma nofile_phase_net: "nofile_phase s0 s em \<Longrightarrow> nofile_phase s0 (step E NetFail s) em"
  by (cases "mpc s") (auto simp: nofile_phase_def same_session_def one_status_def Close_def)

lemma nofile_phase_main:
  assumes "nofile_phase s0 s em" and "mpc s \<noteq> MRead"
  shows "nofile_phase s0 (main_step E s) (em @ new_frames s (main_step E s))"
  using assms
  by (cases "mpc s")
    (auto simp: nofile_phase_def same_session_def one_status_def main_step_def new_frames_def
      WriteMessage_def status_frame_def json_Marshal_def)

text \<open>
  C6. A \<^verbatim>\<open>stop\<close> message read while \<^verbatim>\<open>client.streaming\<close> is false: the two steps
  of the receive loop (read, test of the flag) change nothing but the queue of unread
  messages. Under any schedule, once the loop is back at its read it has written no
  frame, spawned no worker, and flag and channels are as before.
\<close>

theorem stop_when_idle:
  assumes "mpc s = MRead" and "inbound s = Received TextMessage p # rest"
    and "json_Unmarshal E p = Some msg" and "Action msg = ''stop''" and "\<not> streaming s"
  shows "exec E [Run 0, Run 0] s = s\<lparr>inbound := rest\<rparr> \<and>
    (\<forall>as s'. s' = exec E (Run 0 # as) s \<and> mpc s' = MRead \<and> inbound s' = rest \<longrightarrow>
        emitted E 0 (Run 0 # as) s = [] \<and> \<not> streaming s' \<and> stopCh s' = stopCh s \<and>
        closed_chans s' = closed_chans s \<and> next_chan s' = next_chan s \<and>
        length (workers s') = length (workers s))"
proof -
  define s0 where "s0 = step E (Run 0) s"
  have s0: "mpc s0 = MStopCheck" "inbound s0 = rest" "closed_chans s0 = closed_chans s"
    "stopCh s0 = stopCh s" "next_chan s0 = next_chan s" "streaming s0 = streaming s"
    "workers s0 = workers s"
    using assms by (simp_all add: main_step_def dispatch_def s0_def)
  have em1: "emitted E 0 (Run 0 # as) s = emitted E 0 as s0" for as
    using assms by (simp add: main_step_def dispatch_def s0_def new_frames_def)
  have init: "idle_stop_phase s0 s0 []"
    using assms(5) by (simp add: idle_stop_phase_def same_session_def s0)
  have solo: "exec E [Run 0, Run 0] s = s\<lparr>inbound := rest\<rparr>"
    using assms by (simp add: main_step_def dispatch_def)
  have general: "emitted E 0 (Run 0 # as) s = [] \<and> \<not> streaming s' \<and> stopCh s' = stopCh s \<and>
        closed_chans s' = closed_chans s \<and> next_chan s' = next_chan s \<and>
        length (workers s') = length (workers s)"
    if run: "s' = exec E (Run 0 # as) s" and inb: "inbound s' = rest" for as s'
  proof -
    from run have s': "s' = exec E as s0" by (simp add: s0_def)
    have "during idle_stop_phase s0 (exec E as s0) (emitted E 0 as s0)"
      using init
      by (intro during_exec [of idle_stop_phase s0 E as] idle_stop_phase_worker
          idle_stop_phase_net idle_stop_phase_main)
    with s' inb have "idle_stop_phase s0 s' (emitted E 0 as s0)"
      by (simp add: during_def s0)
    then show ?thesis
      unfolding em1 by (simp add: idle_stop_phase_def same_session_def s0)
  qed
  from solo general show ?thesis by blast
qed

theorem stop_when_idle_witness:
  "mpc idle_demo = MRead \<and> \<not> streaming idle_demo \<and>
   exec demo_env [Run 0, Run 0] idle_demo = idle_demo\<lparr>inbound := [msg_start_a]\<rparr> \<and>
   emitted demo_env 0 [Run 0, Run 0] idle_demo = []"
proof -
  have h: "mpc idle_demo = MRead"
    "inbound idle_demo = Received TextMessage ''{\"action\":\"stop\"}'' # [msg_start_a]"
    "json_Unmarshal demo_env ''{\"action\":\"stop\"}'' = Some \<lparr>Action = ''stop'', Filename = []\<rparr>"
    "Action \<lparr>Action = ''stop'', Filename = []\<rparr> = ''stop''" "\<not> streaming idle_demo"
    by (simp_all add: idle_demo_def run_defs)
  have e: "mpc (exec demo_env [Run 0, Run 0] idle_demo) = MRead \<and>
      inbound (exec demo_env [Run 0, Run 0] idle_demo) = [msg_start_a]"
    by (simp add: idle_demo_def run_defs)
  from stop_when_idle [OF h] e
  have "exec demo_env [Run 0, Run 0] idle_demo = idle_demo\<lparr>inbound := [msg_start_a]\<rparr>"
    and "emitted demo_env 0 [Run 0, Run 0] idle_demo = []"
    by blast+
  with h show ?thesis by simp
qed

text \<open>
  C7. A \<^verbatim>\<open>start\<close> message with an empty file name: run without interference on a
  free mutex, the receive loop writes the one text frame
  \<^verbatim>\<open>{"type":"status","data":"Error: No filename provided"}\<close> and changes nothing
  else; no worker is added and the flag keeps its value. Under any schedule, once the
  loop is back at its read it has written exactly that frame (or none on a dead
  connection), the number of workers and the channels are as before, and an idle
  session is still idle.
\<close>

theorem start_without_filename:
  assumes "mpc s = MRead" and "inbound s = Received TextMessage p # rest"
    and "json_Unmarshal E p = Some msg" and "Action msg = ''start''" and "Filename msg = []"
  shows "(mu s = None \<longrightarrow>
      exec E [Run 0, Run 0, Run 0] s =
        s\<lparr>conn :=
            (if usable (conn s) then
               (conn s)\<lparr>sent := sent (conn s) @
                 [TextFrame (JObject [(''type'', JString ''status''),
                    (''data'', JString ''Error: No filename provided'')])]\<rparr>
             else conn s),
          inbound := rest,
          logs := (if usable (conn s) then logs s else logs s @ [ErrSendingStatus])\<rparr>) \<and>
    (\<forall>as s'. s' = exec E (Run 0 # as) s \<and> mpc s' = MRead \<and> inbound s' = rest \<longrightarrow>
        (emitted E 0 (Run 0 # as) s =
           [TextFrame (JObject [(''type'', JString ''status''),
              (''data'', JString ''Error: No filename provided'')])] \<or>
         emitted E 0 (Run 0 # as) s = [] \<and> \<not> usable (conn s')) \<and>
        length (workers s') = length (workers s) \<and> (streaming s' \<longrightarrow> streaming s) \<and>
        stopCh s' = stopCh s \<and> closed_chans s' = closed_chans s \<and> next_chan s' = next_chan s)"
proof -
  define s0 where "s0 = step E (Run 0) s"
  have s0: "mpc s0 = MSend ''Error: No filename provided''" "inbound s0 = rest"
    "closed_chans s0 = closed_chans s" "stopCh s0 = stopCh s" "next_chan s0 = next_chan s"
    "streaming s0 = streaming s" "workers s0 = workers s"
    using assms by (simp_all add: main_step_def dispatch_def s0_def)
  have em1: "emitted E 0 (Run 0 # as) s = emitted E 0 as s0" for as
    using assms by (simp add: main_step_def dispatch_def s0_def new_frames_def)
  have init: "nofile_phase s0 s0 []"
    by (simp add: nofile_phase_def same_session_def s0)
  have solo: "mu s = None \<longrightarrow>
      exec E [Run 0, Run 0, Run 0] s =
        s\<lparr>conn :=
            (if usable (conn s) then
               (conn s)\<lparr>sent := sent (conn s) @
                 [TextFrame (JObject [(''type'', JString ''status''),
                    (''data'', JString ''Error: No filename provided'')])]\<rparr>
             else conn s),
          inbound := rest,
          logs := (if usable (conn s) then logs s else logs s @ [ErrSendingStatus])\<rparr>"
    using assms
    by (simp add: main_step_def dispatch_def WriteMessage_def status_frame_def json_Marshal_def)
  have general: "(emitted E 0 (Run 0 # as) s =
           [TextFrame (JObject [(''type'', JString ''status''),
              (''data'', JString ''Error: No filename provided'')])] \<or>
         emitted E 0 (Run 0 # as) s = [] \<and> \<not> usable (conn s')) \<and>
        length (workers s') = length (workers s) \<and> (streaming s' \<longrightarrow> streaming s) \<and>
        stopCh s' = stopCh s \<and> closed_chans s' = closed_chans s \<and> next_chan s' = next_chan s"
    if run: "s' = exec E (Run 0 # as) s" and rd: "mpc s' = MRead"
      and inb: "inbound s' = rest" for as s'
  proof -
    from run have s': "s' = exec E as s0" by (simp add: s0_def)
    have "during nofile_phase s0 (exec E as s0) (emitted E 0 as s0)"
      using init
      by (intro during_exec [of nofile_phase s0 E as] nofile_phase_worker
          nofile_phase_net nofile_phase_main)
    with s' inb have "nofile_phase s0 s' (emitted E 0 as s0)"
      by (simp add: during_def s0)
    with rd show ?thesis
      unfolding em1 by (simp add: nofile_phase_def same_session_def one_status_def s0)
  qed
  from solo general show ?thesis by blast
qed

theorem start_without_filename_witness:
  "mpc nofile_demo = MRead \<and> inbound nofile_demo = [msg_start_empty] \<and>
   mu nofile_demo = Some 1 \<and>
   mpc (exec demo_env (Run 0 # nofile_demo_schedule) nofile_demo) = MRead \<and>
   usable (conn (exec demo_env (Run 0 # nofile_demo_schedule) nofile_demo)) \<and>
   emitted demo_env 0 (Run 0 # nofile_demo_schedule) nofile_demo =
     [TextFrame (JObject [(''type'', JString ''status''),
        (''data'', JString ''Error: No filename provided'')])] \<and>
   length (workers (exec demo_env (Run 0 # nofile_demo_schedule) nofile_demo)) = 1 \<and>
   stopCh (exec demo_env (Run 0 # nofile_demo_schedule) nofile_demo) = 0"
proof -
  have s: "nofile_demo =
      \<lparr>conn = \<lparr>sent = [], usable = True\<rparr>, mu = Some 1, streaming = True, stopCh = 0,
       closed_chans = {}, next_chan = 1, mpc = MRead, inbound = [msg_start_empty],
       workers = [\<lparr>wpc = WSending ''Streaming a.mp3'' KOpen, fname = ''a.mp3'', unread = [],
          rd_fault = False\<rparr>],
       logs = []\<rparr>"
    by (simp add: nofile_demo_def run_defs)
  have e: "mpc (exec demo_env (Run 0 # nofile_demo_schedule) nofile_demo) = MRead \<and>
      inbound (exec demo_env (Run 0 # nofile_demo_schedule) nofile_demo) = []"
    unfolding s by (simp add: nofile_demo_schedule_def run_defs)
  have u: "usable (conn (exec demo_env (Run 0 # nofile_demo_schedule) nofile_demo))"
    unfolding s by (simp add: nofile_demo_schedule_def run_defs)
  have h: "mpc nofile_demo = MRead"
    "inbound nofile_demo = Received TextMessage ''{\"action\":\"start\"}'' # []"
    "json_Unmarshal demo_env ''{\"action\":\"start\"}'' =
       Some \<lparr>Action = ''start'', Filename = []\<rparr>"
    "Action \<lparr>Action = ''start'', Filename = []\<rparr> = ''start''"
    "Filename \<lparr>Action = ''start'', Filename = []\<rparr> = []"
    unfolding s by (simp_all add: run_defs)
  from start_without_filename [OF h] e
  have "(emitted demo_env 0 (Run 0 # nofile_demo_schedule) nofile_demo =
         [TextFrame (JObject [(''type'', JString ''status''),
            (''data'', JString ''Error: No filename provided'')])] \<or>
       emitted demo_env 0 (Run 0 # nofile_demo_schedule) nofile_demo = [] \<and>
       \<not> usable (conn (exec demo_env (Run 0 # nofile_demo_schedule) nofile_demo))) \<and>
      length (workers (exec demo_env (Run 0 # nofile_demo_schedule) nofile_demo)) =
        length (workers nofile_demo) \<and>
      stopCh (exec demo_env (Run 0 # nofile_demo_schedule) nofile_demo) = stopCh nofile_demo"
    by blast
  moreover have "stopCh nofile_demo = 0" "length (workers nofile_demo) = 1"
    "mu nofile_demo = Some 1" "inbound nofile_demo = [msg_start_empty]"
    unfolding s by simp_all
  ultimately show ?thesis using h e u by simp
qed

subsection \<open>A payload that does not decode\<close>

text \<open>
  C9. A text frame whose payload \<^verbatim>\<open>json.Unmarshal\<close> rejects: the step of the receive
  loop that reads it appends the log line and drops the frame. Nothing else changes: no
  frame is written, and the loop is at its read again with the frames that follow.
\<close>

theorem malformed_json_ignored:
  assumes "mpc s = MRead" and "inbound s = Received TextMessage p # rest"
    and "json_Unmarshal E p = None"
  shows "step E (Run 0) s = s\<lparr>inbound := rest, logs := logs s @ [ErrUnmarshaling]\<rparr> \<and>
    mpc (step E (Run 0) s) = MRead \<and> inbound (step E (Run 0) s) = rest \<and>
    sent (conn (step E (Run 0) s)) = sent (conn s)"
  using assms by (simp add: main_step_def)

theorem malformed_json_ignored_witness:
  "mpc garbage_demo = MRead \<and> inbound garbage_demo = [msg_garbage, msg_start_a] \<and>
   step demo_env (Run 0) garbage_demo =
     garbage_demo\<lparr>inbound := [msg_start_a], logs := [ErrUnmarshaling]\<rparr>"
proof -
  have h: "mpc garbage_demo = MRead"
    "inbound garbage_demo = Received TextMessage ''{oops'' # [msg_start_a]"
    "json_Unmarshal demo_env ''{oops'' = None"
    by (simp_all add: garbage_demo_def run_defs)
  have "logs garbage_demo = []"
    by (simp add: garbage_demo_def init_state_def)
  with malformed_json_ignored [OF h] h show ?thesis
    by (simp add: msg_garbage_def)
qed

subsection \<open>A failed chunk write\<close>

lemma dead_conn_step:
  assumes "\<not> usable (conn s)"
  shows "\<not> usable (conn (step E a s)) \<and> sent (conn (step E a s)) = sent (conn s)"
proof (cases a)
  case NetFail
  with assms show ?thesis by (simp add: Close_def)
next
  case (Run t)
  show ?thesis
  proof (cases t)
    case 0
    with Run assms show ?thesis
      by (cases "mpc s")
        (simp_all add: main_step_def WriteMessage_def Close_def
          split: list.split inbound.split option.split)
  next
    case (Suc i)
    with Run assms show ?thesis
      by (simp add: worker_step_def Let_def set_worker_def add_log_def WriteMessage_def
          split: wpc.split option.split read_result.split)
  qed
qed

lemma dead_conn_emitted: "\<not> usable (conn s) \<Longrightarrow> emitted E t as s = []"
  by (induction as arbitrary: s) (simp_all add: dead_conn_step new_frames_def)

lemma main_step_workers:
  "i < length (workers s) \<Longrightarrow>
   i < length (workers (main_step E s)) \<and> workers (main_step E s) ! i = workers s ! i"
  by (cases "mpc s")
    (simp_all add: main_step_def WriteMessage_def nth_append
      split: list.split inbound.split option.split)

lemma worker_step_other:
  "j \<noteq> i \<Longrightarrow> workers (worker_step E j s) ! i = workers s ! i"
  by (simp add: worker_step_def Let_def set_worker_def add_log_def WriteMessage_def
      split: wpc.split option.split read_result.split)

lemma after_failed_write_step:
  assumes "after_failed_write c i s"
  shows "after_failed_write c i (step E a s)"
proof (cases a)
  case NetFail
  with assms show ?thesis by (simp add: after_failed_write_def Close_def)
next
  case (Run t)
  from assms have dead: "\<not> usable (conn s)" and i: "i < length (workers s)"
    by (simp_all add: after_failed_write_def)
  show ?thesis
  proof (cases t)
    case 0
    with Run assms dead_conn_step [OF dead, of E a] main_step_workers [OF i, of E]
    show ?thesis by (simp add: after_failed_write_def)
  next
    case (Suc j)
    show ?thesis
    proof (cases "j = i")
      case True
      with Run Suc assms show ?thesis
        by (cases "wpc (workers s ! i)")
          (simp_all add: after_failed_write_def worker_step_def set_worker_def WriteMessage_def)
    next
      case False
      with Run Suc assms dead_conn_step [OF dead, of E a] worker_step_other [of j i E s]
        worker_step_keeps [of E j s]
      show ?thesis by (simp add: after_failed_write_def)
    qed
  qed
qed

lemma after_failed_write_exec:
  "after_failed_write c i s \<Longrightarrow> after_failed_write c i (exec E as s)"
  by (induction as arbitrary: s) (simp_all add: after_failed_write_step)

lemma after_failed_write_pc:
  assumes "after_failed_write c i s"
  shows "wpc (workers s ! i) = WChunkWrite c \<or> wpc (workers s ! i) = WResetFlag \<or>
    wpc (workers s ! i) = WDone"
  using assms by (cases "wpc (workers s ! i)") (simp_all add: after_failed_write_def)

text \<open>
  C10. A worker holds the mutex with a chunk write in flight and the connection is
  dead. Its next two steps release the mutex, log the error, clear
  \<^verbatim>\<open>client.streaming\<close> and return; \<open>sent\<close> is unchanged. Under any schedule the worker
  only ever is at the failed write, at the reset of the flag, or done: it never reaches
  a status send or another read, and it writes no frame.
\<close>

theorem chunk_write_failure:
  assumes "i < length (workers s)" and "wpc (workers s ! i) = WChunkWrite c"
    and "\<not> usable (conn s)"
  shows "exec E [Run (Suc i), Run (Suc i)] s =
      s\<lparr>mu := None, streaming := False,
        workers := (workers s)[i := (workers s ! i)\<lparr>wpc := WDone\<rparr>],
        logs := logs s @ [ErrWritingWebSocket]\<rparr> \<and>
    (\<forall>as. emitted E (Suc i) as s = [] \<and>
       (wpc (workers (exec E as s) ! i) = WChunkWrite c \<or>
        wpc (workers (exec E as s) ! i) = WResetFlag \<or>
        wpc (workers (exec E as s) ! i) = WDone))"
proof -
  have solo: "exec E [Run (Suc i), Run (Suc i)] s =
      s\<lparr>mu := None, streaming := False,
        workers := (workers s)[i := (workers s ! i)\<lparr>wpc := WDone\<rparr>],
        logs := logs s @ [ErrWritingWebSocket]\<rparr>"
    using assms by (simp add: worker_step_def WriteMessage_def set_worker_def)
  from assms have "after_failed_write c i s"
    by (simp add: after_failed_write_def)
  then have "after_failed_write c i (exec E as s)" for as
    by (rule after_failed_write_exec)
  then have path: "wpc (workers (exec E as s) ! i) = WChunkWrite c \<or>
        wpc (workers (exec E as s) ! i) = WResetFlag \<or>
        wpc (workers (exec E as s) ! i) = WDone" for as
    by (rule after_failed_write_pc)
  from solo path dead_conn_emitted [OF assms(3)] show ?thesis by blast
qed

theorem chunk_write_failure_witness:
  "wpc (workers failed_write_demo ! 0) = WChunkWrite [1] \<and> \<not> usable (conn failed_write_demo) \<and>
   streaming failed_write_demo \<and>
   sent (conn (exec demo_env [Run 1, Run 1] failed_write_demo)) =
     [status_frame ''Streaming a.mp3''] \<and>
   \<not> streaming (exec demo_env [Run 1, Run 1] failed_write_demo) \<and>
   wpc (workers (exec demo_env [Run 1, Run 1] failed_write_demo) ! 0) = WDone \<and>
   emitted demo_env 1 [Run 1, Run 0, Run 1, Run 1] failed_write_demo = []"
proof -
  have s: "failed_write_demo =
      \<lparr>conn = \<lparr>sent = [status_frame ''Streaming a.mp3''], usable = False\<rparr>, mu = Some 1,
       streaming = True, stopCh = 0, closed_chans = {}, next_chan = 1, mpc = MRead,
       inbound = [],
       workers = [\<lparr>wpc = WChunkWrite [1], fname = ''a.mp3'', unread = [],
          rd_fault = False\<rparr>],
       logs = [StreamingFile ''a.mp3'' 1]\<rparr>"
    by (simp add: failed_write_demo_def run_defs)
  have h: "0 < length (workers failed_write_demo)"
    "wpc (workers failed_write_demo ! 0) = WChunkWrite [1]" "\<not> usable (conn failed_write_demo)"
    unfolding s by simp_all
  from chunk_write_failure [OF h, of demo_env]
  have "exec demo_env [Run (Suc 0), Run (Suc 0)] failed_write_demo =
      failed_write_demo\<lparr>mu := None, streaming := False,
        workers := (workers failed_write_demo)[0 := (workers failed_write_demo ! 0)\<lparr>wpc := WDone\<rparr>],
        logs := logs failed_write_demo @ [ErrWritingWebSocket]\<rparr>"
    and "emitted demo_env (Suc 0) [Run 1, Run 0, Run 1, Run 1] failed_write_demo = []"
    by blast+
  moreover have "streaming failed_write_demo"
    "sent (conn failed_write_demo) = [status_frame ''Streaming a.mp3'']"
    "length (workers failed_write_demo) = 1"
    unfolding s by simp_all
  ultimately show ?thesis using h by simp
qed

subsection \<open>A file that does not exist\<close>

text \<open>
  C1. \<^verbatim>\<open>start\<close> for \<^verbatim>\<open>missing.mp3\<close>, which is not in the directory, on a fresh
  connection: three steps of the receive loop and three of the worker. The worker
  writes the one status \<^verbatim>\<open>Error: File missing.mp3 not found\<close> and returns, and
  \<^verbatim>\<open>client.streaming\<close>, set by the receive loop, is still true: the return after
  \<^verbatim>\<open>os.Stat\<close> does not reset it, unlike the returns after a read or write error and at
  the end of the file.
\<close>

theorem missing_file_leaves_streaming_set:
  "exec demo_env [Run 0, Run 0, Run 0, Run 1, Run 1, Run 1] (init_state [msg_start_missing]) =
     \<lparr>conn = \<lparr>sent = [status_frame ''Error: File missing.mp3 not found''], usable = True\<rparr>,
      mu = None, streaming = True, stopCh = 0,
      closed_chans = {}, next_chan = 1, mpc = MRead, inbound = [],
      workers = [\<lparr>wpc = WDone, fname = ''missing.mp3'', unread = [], rd_fault = False\<rparr>],
      logs = []\<rparr>"
  by (simp add: run_defs)

subsection \<open>A second start during a transfer\<close>

text \<open>
  C3. \<^verbatim>\<open>start a.mp3\<close> and then \<^verbatim>\<open>start b.mp3\<close> while the first transfer is in
  flight. The receive loop closes channel 0 and stores the fresh channel 1 in
  \<^verbatim>\<open>client.stopCh\<close>. The first worker evaluates \<^verbatim>\<open>client.stopCh\<close> anew in every
  \<^verbatim>\<open>select\<close>, so from then on it polls channel 1, which is open: it sends its chunk
  after the status \<^verbatim>\<open>Streaming b.mp3\<close>, then \<^verbatim>\<open>Streaming finished\<close>, and clears
  the flag while the second worker is still in its loop.
\<close>

theorem superseded_worker_keeps_sending:
  "sent (conn (exec demo_env supersede_schedule (init_state [msg_start_a, msg_start_b]))) =
     [status_frame ''Streaming a.mp3'', status_frame ''Streaming b.mp3'', BinaryFrame [1],
      BinaryFrame [2], status_frame ''Streaming finished''] \<and>
   emitted demo_env 1 supersede_schedule (init_state [msg_start_a, msg_start_b]) =
     [status_frame ''Streaming a.mp3'', BinaryFrame [1], status_frame ''Streaming finished''] \<and>
   emitted demo_env 2 supersede_schedule (init_state [msg_start_a, msg_start_b]) =
     [status_frame ''Streaming b.mp3'', BinaryFrame [2]] \<and>
   map wpc (workers (exec demo_env supersede_schedule (init_state [msg_start_a, msg_start_b]))) =
     [WDone, WSelect] \<and>
   closed_chans (exec demo_env supersede_schedule (init_state [msg_start_a, msg_start_b])) = {0} \<and>
   streaming (exec demo_env supersede_schedule (init_state [msg_start_a, msg_start_b])) = False"
  by (simp add: supersede_schedule_def run_defs)
subsection \<open>Mutual exclusion\<close>

lemma lock_inv_parts:
  "lock_inv s \<longleftrightarrow>
     (main_holds (mpc s) \<longleftrightarrow> mu s = Some 0) \<and>
     (\<forall>i. i < length (workers s) \<and> worker_writing (wpc (workers s ! i)) \<longleftrightarrow> mu s = Some (Suc i))"
proof
  assume "lock_inv s"
  then have "holds_lock s t \<longleftrightarrow> mu s = Some t" for t
    by (simp add: lock_inv_def)
  from this [of 0] this [of "Suc _"] show
    "(main_holds (mpc s) \<longleftrightarrow> mu s = Some 0) \<and>
     (\<forall>i. i < length (workers s) \<and> worker_writing (wpc (workers s ! i)) \<longleftrightarrow> mu s = Some (Suc i))"
    by (simp add: holds_lock_def)
next
  assume r: "(main_holds (mpc s) \<longleftrightarrow> mu s = Some 0) \<and>
     (\<forall>i. i < length (workers s) \<and> worker_writing (wpc (workers s ! i)) \<longleftrightarrow> mu s = Some (Suc i))"
  show "lock_inv s"
    unfolding lock_inv_def
  proof
    fix t
    from r show "holds_lock s t \<longleftrightarrow> mu s = Some t"
      by (cases t) (simp_all add: holds_lock_def)
  qed
qed

lemma lock_inv_main:
  assumes "lock_inv s"
  shows "lock_inv (main_step E s)"
proof (cases "mpc s")
  case (MStartSet f)
  from assms have m: "mu s \<noteq> Some 0"
    and w: "i < length (workers s) \<and> worker_writing (wpc (workers s ! i)) \<longleftrightarrow>
      mu s = Some (Suc i)" for i
    by (simp_all add: lock_inv_parts MStartSet)
  have "i < length (workers s @ [new_worker f]) \<and>
      worker_writing (wpc ((workers s @ [new_worker f]) ! i)) \<longleftrightarrow> mu s = Some (Suc i)" for i
    using w [of i] by (cases "i < length (workers s)") (auto simp: nth_append new_worker_def)
  with m show ?thesis
    by (simp add: lock_inv_parts main_step_def MStartSet)
qed (use assms in \<open>simp_all add: lock_inv_parts main_step_def WriteMessage_def dispatch_def
      split: list.split inbound.split option.split\<close>)

lemma resume_not_writing: "\<not> worker_writing (resume k)"
  by (cases k) simp_all

lemma lock_inv_worker:
  assumes "lock_inv s"
  shows "lock_inv (worker_step E i s)"
proof (cases "i < length (workers s)")
  case False
  with assms show ?thesis by (simp add: worker_step_def)
next
  case True
  from assms have m: "main_holds (mpc s) \<longleftrightarrow> mu s = Some 0"
    and w: "j < length (workers s) \<and> worker_writing (wpc (workers s ! j)) \<longleftrightarrow>
      mu s = Some (Suc j)" for j
    by (simp_all add: lock_inv_parts)
  show ?thesis
    unfolding lock_inv_parts
  proof (intro conjI allI)
    from m w [of i] True show "main_holds (mpc (worker_step E i s)) \<longleftrightarrow> mu (worker_step E i s) = Some 0"
      by (cases "wpc (workers s ! i)")
        (auto simp: worker_step_def Let_def set_worker_def add_log_def WriteMessage_def
          split: option.split read_result.split)
  next
    fix j
    from m w [of i] w [of j] True
    show "j < length (workers (worker_step E i s)) \<and>
        worker_writing (wpc (workers (worker_step E i s) ! j)) \<longleftrightarrow>
        mu (worker_step E i s) = Some (Suc j)"
      by (cases "wpc (workers s ! i)"; cases "j = i")
        (auto simp: worker_step_def Let_def set_worker_def add_log_def WriteMessage_def
          resume_not_writing split: option.split read_result.split)
  qed
qed

lemma lock_inv_step: "lock_inv s \<Longrightarrow> lock_inv (step E a s)"
proof (cases a)
  case NetFail
  then show "lock_inv s \<Longrightarrow> lock_inv (step E a s)" by (simp add: lock_inv_parts)
next
  case (Run t)
  then show "lock_inv s \<Longrightarrow> lock_inv (step E a s)"
    by (cases t) (simp_all add: lock_inv_main lock_inv_worker)
qed

lemma lock_inv_reachable: "lock_inv (exec E as (init_state inp))"
proof (induction as rule: rev_induct)
  case Nil
  show ?case by (simp add: lock_inv_parts init_state_def)
next
  case (snoc a as)
  then show ?case by (simp add: exec_append lock_inv_step)
qed


lemma write_step:
  assumes "sent (conn (step E a s)) \<noteq> sent (conn s)"
  shows "\<exists>t f. a = Run t \<and> writing s t \<and> sent (conn (step E a s)) = sent (conn s) @ [f] \<and>
    mu (step E a s) = None"
proof (cases a)
  case NetFail
  with assms show ?thesis by (simp add: Close_def)
next
  case (Run t)
  show ?thesis
  proof (cases t)
    case 0
    with Run assms show ?thesis
      by (cases "mpc s")
        (auto simp: writing_def main_step_def WriteMessage_def Close_def
          split: list.splits inbound.splits option.splits if_splits)
  next
    case (Suc i)
    show ?thesis
    proof (cases "i < length (workers s)")
      case False
      with Run Suc assms show ?thesis by (simp add: worker_step_def)
    next
      case True
      with Run Suc assms show ?thesis
        by (cases "wpc (workers s ! i)")
          (auto simp: writing_def worker_step_def Let_def set_worker_def add_log_def
            WriteMessage_def split: option.splits read_result.splits if_splits)
    qed
  qed
qed

text \<open>
  C4. In every state a session can reach, at most one thread (the receive loop or a
  worker) has a frame write in flight, and that thread holds \<^verbatim>\<open>client.mu\<close>. Every step
  that changes what has been sent is the write of one frame by the thread that holds
  the mutex, and releases the mutex with that frame. ``Actively sending'' is read as
  having a write in flight (the spec: no two workers write concurrently); several
  workers can be in their transfer loops at once, their frames alternating.
\<close>

theorem one_write_at_a_time:
  assumes "s = exec E as (init_state inp)"
  shows "(\<forall>t u. writing s t \<and> writing s u \<longrightarrow> t = u) \<and>
    (\<forall>t. writing s t \<longrightarrow> mu s = Some t) \<and>
    (\<forall>a. sent (conn (step E a s)) \<noteq> sent (conn s) \<longrightarrow>
       (\<exists>t f. a = Run t \<and> writing s t \<and> mu s = Some t \<and>
          sent (conn (step E a s)) = sent (conn s) @ [f] \<and> mu (step E a s) = None))"
proof -
  from assms have "lock_inv s" by (simp add: lock_inv_reachable)
  then have h: "holds_lock s t \<longleftrightarrow> mu s = Some t" for t
    by (simp add: lock_inv_def)
  have wh: "writing s t \<Longrightarrow> holds_lock s t" for t
    by (cases t; cases "mpc s") (simp_all add: writing_def holds_lock_def)
  have locked: "writing s t \<Longrightarrow> mu s = Some t" for t
    using wh h by blast
  have one: "t = u" if "writing s t" and "writing s u" for t u
    using locked [OF that(1)] locked [OF that(2)] by simp
  have wr: "\<exists>t f. a = Run t \<and> writing s t \<and> mu s = Some t \<and>
          sent (conn (step E a s)) = sent (conn s) @ [f] \<and> mu (step E a s) = None"
    if "sent (conn (step E a s)) \<noteq> sent (conn s)" for a
    using write_step [OF that] locked by blast
  from one locked wr show ?thesis by blast
qed

theorem one_write_at_a_time_witness:
  "writing stop_demo 1 \<and> \<not> writing stop_demo 0 \<and> mu stop_demo = Some 1 \<and>
   sent (conn (step demo_env (Run 1) stop_demo)) \<noteq> sent (conn stop_demo) \<and>
   mu (step demo_env (Run 1) stop_demo) = None"
proof -
  have s: "stop_demo =
      \<lparr>conn = \<lparr>sent = [], usable = True\<rparr>, mu = Some 1, streaming = True, stopCh = 0,
       closed_chans = {}, next_chan = 1, mpc = MRead, inbound = [msg_stop],
       workers = [\<lparr>wpc = WSending ''Streaming a.mp3'' KOpen, fname = ''a.mp3'', unread = [],
          rd_fault = False\<rparr>],
       logs = []\<rparr>"
    by (simp add: stop_demo_def run_defs)
  have w: "writing stop_demo 1" "\<not> writing stop_demo 0"
    unfolding s by (simp_all add: writing_def)
  have d: "sent (conn (step demo_env (Run 1) stop_demo)) \<noteq> sent (conn stop_demo)"
    unfolding s by (simp add: run_defs)
  from one_write_at_a_time [OF stop_demo_def] w d
  have "mu stop_demo = Some 1"
    and "\<exists>t f. Run 1 = Run t \<and> writing stop_demo t \<and> mu stop_demo = Some t \<and>
      sent (conn (step demo_env (Run 1) stop_demo)) = sent (conn stop_demo) @ [f] \<and>
      mu (step demo_env (Run 1) stop_demo) = None"
    by blast+
  with w d show ?thesis by blast
qed

subsection \<open>Status messages\<close>

lemma code_status_texts:
  "code_status ''Error: No filename provided''" "code_status ''Streaming stopped''"
  "code_status ''Streaming finished''" "code_status ''Error reading audio file''"
  "code_status ''Error opening audio file''"
  "code_status (''Streaming '' @ f)" "code_status (''Error: File '' @ f @ '' not found'')"
proof -
  have "suffix '' not found'' (''Error: File '' @ f @ '' not found'')"
    by (metis append.assoc suffixI)
  then show "code_status (''Error: File '' @ f @ '' not found'')"
    by (simp add: code_status_def spec_status_kind_def)
qed (simp_all add: code_status_def spec_status_kind_def)

lemmas code_status_consed = code_status_texts(6,7) [simplified]

lemma status_frame_ok: "code_status m \<Longrightarrow> frame_ok code_status (status_frame m)"
  by (auto simp: status_frame_def json_Marshal_def status_object_def)

lemma resume_pending: "worker_pending (resume k)"
  by (cases k) simp_all

lemma status_inv_main: 
  assumes "status_inv s"
  shows "status_inv (main_step E s)"
  using assms
  by (cases "mpc s")
    (auto simp: status_inv_def main_step_def dispatch_def WriteMessage_def Close_def
      new_worker_def code_status_texts status_frame_ok nth_append less_Suc_eq
      split: list.split inbound.split option.split)

lemma status_inv_worker:
  assumes "status_inv s"
  shows "status_inv (worker_step E i s)"
proof (cases "i < length (workers s)")
  case False
  with assms show ?thesis by (simp add: worker_step_def)
next
  case True
  with assms show ?thesis
    by (cases "wpc (workers s ! i)")
      (auto simp: status_inv_def worker_step_def Let_def set_worker_def add_log_def
        WriteMessage_def code_status_texts code_status_consed status_frame_ok nth_list_update
        resume_pending
        split: option.split read_result.split)
qed

lemma status_inv_step: "status_inv s \<Longrightarrow> status_inv (step E a s)"
proof (cases a)
  case NetFail
  then show "status_inv s \<Longrightarrow> status_inv (step E a s)"
    by (simp add: status_inv_def Close_def)
next
  case (Run t)
  then show "status_inv s \<Longrightarrow> status_inv (step E a s)"
    by (cases t) (simp_all add: status_inv_main status_inv_worker)
qed

lemma status_inv_reachable: "status_inv (exec E as (init_state inp))"
proof (induction as rule: rev_induct)
  case Nil
  show ?case by (simp add: status_inv_def init_state_def)
next
  case (snoc a as)
  then show ?case by (simp add: exec_append status_inv_step)
qed

text \<open>
  C8, as stated: every text frame is a status object whose message is of an enumerated
  kind. It fails for a file that exists and cannot be opened: \<^verbatim>\<open>streamAudio\<close> sends
  \<^verbatim>\<open>Error opening audio file\<close>, which is of none of the kinds.
\<close>

theorem open_error_status_not_enumerated:
  "TextFrame (status_object ''Error opening audio file'') \<in>
     set (sent (conn (exec demo_env locked_schedule (init_state [msg_start_locked])))) \<and>
   spec_status_kind ''Error opening audio file'' = None"
  by (simp add: locked_schedule_def run_defs status_object_def spec_status_kind_def)

text \<open>
  C8, amended: in every state a session can reach, every frame sent is a binary frame
  or the object \<^verbatim>\<open>{"type":"status","data":m}\<close> for a message \<open>m\<close> that is of an
  enumerated kind or is \<^verbatim>\<open>Error opening audio file\<close>.
\<close>

theorem text_frames_are_statuses:
  assumes "s = exec E as (init_state inp)"
  shows "\<forall>fr \<in> set (sent (conn s)).
    (\<exists>c. fr = BinaryFrame c) \<or>
    (\<exists>m. fr = TextFrame (JObject [(''type'', JString ''status''), (''data'', JString m)]) \<and>
       (spec_status_kind m \<noteq> None \<or> m = ''Error opening audio file''))"
proof
  fix fr
  assume "fr \<in> set (sent (conn s))"
  with assms status_inv_reachable [of E as inp] have "frame_ok code_status fr"
    by (simp add: status_inv_def)
  then show "(\<exists>c. fr = BinaryFrame c) \<or>
    (\<exists>m. fr = TextFrame (JObject [(''type'', JString ''status''), (''data'', JString m)]) \<and>
       (spec_status_kind m \<noteq> None \<or> m = ''Error opening audio file''))"
    by (cases fr) (auto simp: status_object_def code_status_def)
qed

theorem text_frames_are_statuses_witness:
  "sent (conn (exec demo_env locked_schedule (init_state [msg_start_locked]))) =
     [status_frame ''Streaming locked.mp3'', status_frame ''Error opening audio file''] \<and>
   (\<exists>m. status_frame ''Streaming locked.mp3'' =
       TextFrame (JObject [(''type'', JString ''status''), (''data'', JString m)]) \<and>
     code_status m) \<and>
   (\<exists>m. status_frame ''Error opening audio file'' =
       TextFrame (JObject [(''type'', JString ''status''), (''data'', JString m)]) \<and>
     code_status m)"
proof -
  have e: "sent (conn (exec demo_env locked_schedule (init_state [msg_start_locked]))) =
     [status_frame ''Streaming locked.mp3'', status_frame ''Error opening audio file'']"
    by (simp add: locked_schedule_def run_defs)
  from text_frames_are_statuses [OF refl, of demo_env locked_schedule "[msg_start_locked]"]
  have "\<forall>fr \<in> {status_frame ''Streaming locked.mp3'', status_frame ''Error opening audio file''}.
      (\<exists>c. fr = BinaryFrame c) \<or>
      (\<exists>m. fr = TextFrame (JObject [(''type'', JString ''status''), (''data'', JString m)]) \<and>
         (spec_status_kind m \<noteq> None \<or> m = ''Error opening audio file''))"
    unfolding e by simp
  then have "(\<exists>m. status_frame ''Streaming locked.mp3'' =
       TextFrame (JObject [(''type'', JString ''status''), (''data'', JString m)]) \<and>
     code_status m)"
    and "(\<exists>m. status_frame ''Error opening audio file'' =
       TextFrame (JObject [(''type'', JString ''status''), (''data'', JString m)]) \<and>
     code_status m)"
    by (simp_all add: status_frame_def code_status_def)
  with e show ?thesis by blast
qed

subsection \<open>A complete transfer\<close>

declare chunks.simps [simp del]


lemma chunks_Nil: "chunks n [] = []"
  by (simp add: chunks.simps)

lemma chunks_step: "0 < n \<Longrightarrow> xs \<noteq> [] \<Longrightarrow> chunks n xs = take n xs # chunks n (drop n xs)"
  by (subst chunks.simps) simp




lemma chunk_size_pos: "0 < chunk_size"
  by (simp add: chunk_size_def)

lemma worker_step_idle:
  "length (workers s) \<le> i \<or> wpc (workers s ! i) = WDone \<Longrightarrow> worker_step E i s = s"
  by (auto simp: worker_step_def)

lemma running_step:
  assumes ok: "worker_ok f bs s0 s (workers s ! n)" and n: "n = length (workers s0)"
    and len: "length (workers s) = Suc n" and live: "usable (conn s)"
    and ch: "stopCh s \<notin> closed_chans s"
    and res: "stat E f = Some r" "can_open r" "content r = bs" "\<not> read_fails r"
  shows "worker_ok f bs s0 (worker_step E n s) (workers (worker_step E n s) ! n) \<and>
    (wpc (workers s ! n) \<noteq> WDone \<longrightarrow>
       steps_left bs (workers (worker_step E n s) ! n) < steps_left bs (workers s ! n))"
proof (cases "wpc (workers s ! n)")
  case WStat
  with assms show ?thesis
    by (simp add: Let_def worker_ok_def worker_step_def pc_ok_def todo_def steps_left_def set_worker_def)
next
  case (WSend m k)
  with assms show ?thesis
    by (auto simp: Let_def worker_ok_def worker_step_def pc_ok_def todo_def steps_left_def set_worker_def)
next
  case (WSending m k)
  with assms show ?thesis
    by (auto simp: Let_def worker_ok_def worker_step_def pc_ok_def todo_def steps_left_def set_worker_def
        WriteMessage_def transfer_frames_def)
next
  case WOpen
  with assms show ?thesis
    by (simp add: Let_def worker_ok_def worker_step_def pc_ok_def todo_def steps_left_def set_worker_def
        add_log_def)
next
  case WSelect
  with assms show ?thesis
    by (simp add: Let_def worker_ok_def worker_step_def pc_ok_def todo_def steps_left_def set_worker_def)
next
  case (WPoll c)
  show ?thesis
  proof (cases "unread (workers s ! n) = []")
    case True
    with WPoll assms show ?thesis
      by (simp add: Let_def worker_ok_def worker_step_def pc_ok_def todo_def steps_left_def set_worker_def
          add_log_def file_Read_def chunks_Nil)
  next
    case False
    with WPoll assms chunks_step [OF chunk_size_pos False] show ?thesis
      by (simp add: Let_def worker_ok_def worker_step_def pc_ok_def todo_def steps_left_def set_worker_def
          file_Read_def)
  qed
next
  case (WChunkLock c)
  with assms show ?thesis
    by (simp add: Let_def worker_ok_def worker_step_def pc_ok_def todo_def steps_left_def set_worker_def)
next
  case (WChunkWrite c)
  with assms show ?thesis
    by (simp add: Let_def worker_ok_def worker_step_def pc_ok_def todo_def steps_left_def set_worker_def
        WriteMessage_def)
next
  case WResetFlag
  with assms show ?thesis
    by (simp add: Let_def worker_ok_def worker_step_def pc_ok_def todo_def steps_left_def set_worker_def)
next
  case WDone
  with assms show ?thesis
    by (simp add: worker_step_def)
qed



lemma transfer_inv_main:
  assumes inv: "transfer_inv f bs s0 s"
  shows "transfer_inv f bs s0 (main_step E s)"
proof -
  from inv have "chan_inv s" by (simp add: transfer_inv_def)
  then have ci: "chan_inv (main_step E s)"
    using chan_inv_step [of s E "Run 0"] by simp
  from inv have inb: "inbound s = []" by (simp add: transfer_inv_def)
  show ?thesis
  proof (cases "mpc s")
    case MRead
    with inb inv show ?thesis by (simp add: main_step_waiting)
  next
    case (MStartSet g)
    with inv ci show ?thesis
      by (auto simp: transfer_inv_def pre_spawn_def main_step_def worker_ok_def pc_ok_def
          todo_def new_worker_def nth_append)
  next
    case (MStartClose g)
    with inv have "stopCh s \<notin> closed_chans s"
      by (simp add: transfer_inv_def chan_inv_def)
    with MStartClose inv ci show ?thesis
      by (auto simp: transfer_inv_def pre_spawn_def main_step_def)
  qed (use inv ci in \<open>auto simp: transfer_inv_def pre_spawn_def main_step_def\<close>)
qed

lemma transfer_inv_worker:
  assumes inv: "transfer_inv f bs s0 s"
    and res: "stat E f = Some r" "can_open r" "content r = bs" "\<not> read_fails r"
  shows "transfer_inv f bs s0 (worker_step E i s)"
proof (cases "length (workers s) \<le> i \<or> wpc (workers s ! i) = WDone")
  case True
  with inv show ?thesis by (simp add: worker_step_idle)
next
  case False
  then have i: "i < length (workers s)" and live: "wpc (workers s ! i) \<noteq> WDone"
    by simp_all
  from inv have old: "\<forall>j < length (workers s0). j < length (workers s) \<and> wpc (workers s ! j) = WDone"
    by (simp add: transfer_inv_def)
  with live have ge: "length (workers s0) \<le> i"
    by (meson not_le_imp_less)
  have rd: "mpc s = MRead"
  proof (rule ccontr)
    assume "mpc s \<noteq> MRead"
    with inv have "workers s = workers s0"
      by (cases "mpc s") (simp_all add: transfer_inv_def pre_spawn_def)
    with i ge show False by simp
  qed
  with inv have len: "length (workers s) = Suc (length (workers s0))"
    and ok: "worker_ok f bs s0 s (workers s ! length (workers s0))"
    and us: "usable (conn s)" and ci: "chan_inv s" and inb: "inbound s = []"
    by (simp_all add: transfer_inv_def)
  from len i ge have ieq: "i = length (workers s0)" by simp
  from ci rd have ch: "stopCh s \<notin> closed_chans s"
    by (simp add: chan_inv_def)
  from ci have ci': "chan_inv (worker_step E i s)"
    using chan_inv_step [of s E "Run (Suc i)"] by simp
  note run = running_step [OF ok [folded ieq] ieq len [folded ieq] us ch res, THEN conjunct1]
  have others: "\<forall>j < length (workers s0).
      j < length (workers (worker_step E i s)) \<and> wpc (workers (worker_step E i s) ! j) = WDone"
    using old worker_step_other [of i _ E s] worker_step_keeps [of E i s] ieq by simp
  from run others ci' worker_step_keeps [of E i s] rd len us inb ieq show ?thesis
    by (simp add: transfer_inv_def)
qed

lemma transfer_inv_step:
  assumes "transfer_inv f bs s0 s" and "a \<noteq> NetFail"
    and "stat E f = Some r" "can_open r" "content r = bs" "\<not> read_fails r"
  shows "transfer_inv f bs s0 (step E a s)"
proof (cases a)
  case NetFail
  with assms(2) show ?thesis by simp
next
  case (Run t)
  with assms show ?thesis
    by (cases t) (simp_all add: transfer_inv_main transfer_inv_worker)
qed

lemma transfer_inv_exec:
  assumes "transfer_inv f bs s0 s" and "NetFail \<notin> set as"
    and "stat E f = Some r" "can_open r" "content r = bs" "\<not> read_fails r"
  shows "transfer_inv f bs s0 (exec E as s)"
  using assms(1,2)
proof (induction as arbitrary: s)
  case Nil
  then show ?case by simp
next
  case (Cons a as)
  from Cons.prems have "transfer_inv f bs s0 (step E a s)"
    by (intro transfer_inv_step [OF _ _ assms(3-)]) auto
  with Cons show ?case by simp
qed










lemma worker_run_keeps_mpc: "mpc (exec E (replicate k (Run (Suc i))) s) = mpc s"
proof (induction k arbitrary: s)
  case 0
  show ?case by simp
next
  case (Suc k)
  from Suc [of "worker_step E i s"] worker_step_keeps [of E i s] show ?case by simp
qed




end
